theory Spec2Isabelle
  imports Main "HOL-Library.Word"
begin

unbundle bit_operations_syntax

section \<open>UxPlay front end (uxplay.cpp): data\<close>

text \<open>
  C integer types of the source: \<open>unsigned short\<close> is 16 bits, \<open>unsigned int\<close>
  (and glib's \<open>uint\<close>) 32 bits, \<open>char\<close> 8 bits. \<open>unsigned long\<close> values are kept as
  \<open>nat\<close> below \<open>2 ^ 64\<close> (LP64, the Linux targets of the program).
  C strings are \<open>string\<close>s without the terminating NUL.
\<close>

type_synonym u8 = "8 word"
type_synonym u16 = "16 word"
type_synonym u32 = "32 word"

definition LOWEST_ALLOWED_PORT :: nat where
  "LOWEST_ALLOWED_PORT = 1024"

definition HIGHEST_PORT :: nat where
  "HIGHEST_PORT = 65535"

definition ULONG_MAX :: nat where
  "ULONG_MAX = 2 ^ 64 - 1"

datatype videoflip_t = NONE | LEFT | RIGHT | INVERT | VFLIP | HFLIP

section \<open>C library string functions used by the parsers\<close>

definition isspace :: "char \<Rightarrow> bool" where
  "isspace c = (c = CHR '' '' \<or> (9 \<le> (of_char c :: nat) \<and> (of_char c :: nat) \<le> 13))"

definition isdigit :: "char \<Rightarrow> bool" where
  "isdigit c = (48 \<le> (of_char c :: nat) \<and> (of_char c :: nat) \<le> 57)"

definition digit_val :: "char \<Rightarrow> nat" where
  "digit_val c = of_char c - 48"

text \<open>\<open>s[0]\<close> of a C string: the terminating NUL when the string is empty.\<close>

definition char0 :: "string \<Rightarrow> char" where
  "char0 s = (case s of [] \<Rightarrow> CHR 0x00 | c # _ \<Rightarrow> c)"

text \<open>The digit loop of \<open>strtoul\<close> in base 10: value read so far, and the unread rest.\<close>

fun acc_digits :: "nat \<Rightarrow> string \<Rightarrow> nat \<times> string" where
  "acc_digits a [] = (a, [])"
| "acc_digits a (c # cs) =
     (if isdigit c then acc_digits (10 * a + digit_val c) cs else (a, c # cs))"

text \<open>
  \<open>strtoul(s, &end, 10)\<close>: leading white space is skipped, one sign is accepted, then
  decimal digits are read. Without a digit nothing is converted: the value is 0 and
  \<open>end\<close> is \<open>s\<close>. A value above \<open>ULONG_MAX\<close> is returned as \<open>ULONG_MAX\<close>; after a
  minus sign the value is negated in \<open>unsigned long\<close>. The result is the value and the
  text \<open>end\<close> points to.
\<close>

definition strtoul :: "string \<Rightarrow> nat \<times> string" where
  "strtoul s =
     (let t = dropWhile isspace s;
          neg = (char0 t = CHR ''-'');
          u = (if char0 t = CHR ''-'' \<or> char0 t = CHR ''+'' then tl t else t)
      in if isdigit (char0 u)
         then (let (v, rest) = acc_digits 0 u
               in (if v > ULONG_MAX then ULONG_MAX
                   else if neg then (ULONG_MAX + 1 - v) mod (ULONG_MAX + 1)
                   else v, rest))
         else (0, s))"

text \<open>\<open>std::string::find_first_of\<close> for one character; \<open>None\<close> is \<open>npos\<close>.\<close>

definition find_first_of :: "char \<Rightarrow> string \<Rightarrow> nat option" where
  "find_first_of c s =
     (if c \<in> set s then Some (length (takeWhile (\<lambda>d. d \<noteq> c) s)) else None)"

section \<open>Value parsers\<close>

text \<open>
  \<open>get_display_settings(value, &w, &h, &r)\<close>. The three cells are passed in and
  returned with the boolean, since the source writes them before it has checked them.
\<close>

definition get_display_settings :: "string \<Rightarrow> u16 \<times> u16 \<times> u16 \<Rightarrow> bool \<times> u16 \<times> u16 \<times> u16" where
  "get_display_settings value0 whr =
     (case whr of (w, h, r) \<Rightarrow>
      (case find_first_of CHR ''x'' value0 of
         None \<Rightarrow> (False, w, h, r)
       | Some pos \<Rightarrow>
          (let str1 = drop (pos + 1) value0;
               val = take pos value0
           in if length val = 0 \<or> length val > 4 \<or> char0 val = CHR ''-'' then (False, w, h, r)
              else (let (l, e) = strtoul val;
                        w = (of_nat l :: u16)
                    in if e \<noteq> [] \<or> w = 0 then (False, w, h, r)
                       else (case find_first_of CHR ''@'' str1 of
                          Some pos2 \<Rightarrow>
                            (let str2 = drop (pos2 + 1) str1
                             in if length str2 = 0 \<or> length str2 > 3 \<or> char0 str2 = CHR ''-''
                                then (False, w, h, r)
                                else (let (l2, e2) = strtoul str2;
                                          r = (of_nat l2 :: u16)
                                      in if e2 \<noteq> [] \<or> r = 0 \<or> r > 255 then (False, w, h, r)
                                         else (let str1 = take pos2 str1
                                               in if length str1 = 0 \<or> length str1 > 4 \<or> char0 str1 = CHR ''-''
                                                  then (False, w, h, r)
                                                  else (let (l3, e3) = strtoul str1;
                                                            h = (of_nat l3 :: u16)
                                                        in if e3 \<noteq> [] \<or> h = 0 then (False, w, h, r)
                                                           else (True, w, h, r)))))
                        | None \<Rightarrow>
                            (if length str1 = 0 \<or> length str1 > 4 \<or> char0 str1 = CHR ''-''
                             then (False, w, h, r)
                             else (let (l3, e3) = strtoul str1;
                                       h = (of_nat l3 :: u16)
                                   in if e3 \<noteq> [] \<or> h = 0 then (False, w, h, r)
                                      else (True, w, h, r))))))))"

text \<open>\<open>get_value(str, &n)\<close>: \<open>n\<close> holds the ceiling on entry (0: none) and the value on success.\<close>

definition get_value :: "string \<Rightarrow> u32 \<Rightarrow> bool \<times> u32" where
  "get_value str n =
     (if length str = 0 \<or> length str > 10 \<or> char0 str = CHR ''-'' then (False, n)
      else (let (l, e) = strtoul str
            in if e \<noteq> [] \<or> l = 0 \<or> (n > 0 \<and> l > unat n) then (False, n)
               else (True, of_nat l)))"

text \<open>
  The second loop of \<open>get_ports\<close>, \<open>for (j = i + 1; j < nports; j++) port[j] = port[j - 1] + 1\<close>,
  started at \<open>j\<close>.
\<close>

function fill_ports :: "u16 list \<Rightarrow> nat \<Rightarrow> nat \<Rightarrow> u16 list" where
  "fill_ports port j nports =
     (if j < nports then fill_ports (port[j := port ! (j - 1) + 1]) (Suc j) nports else port)"
  by pat_completeness auto
termination
  by (relation "measure (\<lambda>(port, j, nports). nports - j)") auto

text \<open>
  The first inner loop of \<open>get_ports\<close> compares \<open>port[j]\<close> with \<open>port[i]\<close> for \<open>j < i\<close>;
  its \<open>break\<close> leaves only that loop. What it finds is returned here and used nowhere.
\<close>

definition duplicate_scan :: "u16 list \<Rightarrow> nat \<Rightarrow> bool" where
  "duplicate_scan port i = (\<exists>j \<in> set [0 ..< i]. port ! j = port ! i)"

text \<open>
  \<open>get_ports(nports, option, value, port)\<close>, the outer loop at index \<open>i\<close> with \<open>val\<close> the
  text not yet read. \<open>port\<close> has \<open>nports\<close> cells. The result is the boolean and the array.
\<close>

function get_ports_loop :: "nat \<Rightarrow> nat \<Rightarrow> string \<Rightarrow> u16 list \<Rightarrow> bool \<times> u16 list" where
  "get_ports_loop nports i val port =
     (if i \<ge> nports then (False, port)
      else (let pos = find_first_of CHR '','' val;
                str = (case pos of None \<Rightarrow> val | Some p \<Rightarrow> take p val)
            in if length str = 0 \<or> length str > 5 \<or> char0 str = CHR ''-'' then (False, port)
               else (let (l, e) = strtoul str
                     in if e \<noteq> [] \<or> l < LOWEST_ALLOWED_PORT \<or> l > HIGHEST_PORT then (False, port)
                        else (let port = port[i := (of_nat l :: u16)];
                                  dup = duplicate_scan port i
                              in (case pos of
                                    None \<Rightarrow>
                                      (if nports + unat (port ! i) > i + 1 + HIGHEST_PORT
                                       then (False, port)
                                       else (True, fill_ports port (i + 1) nports))
                                  | Some p \<Rightarrow> get_ports_loop nports (i + 1) (drop (p + 1) val) port)))))"
  by pat_completeness auto
termination
  by (relation "measure (\<lambda>(nports, i, val, port). nports - i)") auto

definition get_ports :: "nat \<Rightarrow> string \<Rightarrow> u16 list \<Rightarrow> bool \<times> u16 list" where
  "get_ports nports value0 port = get_ports_loop nports 0 value0 port"

definition get_videoflip :: "string \<Rightarrow> videoflip_t \<Rightarrow> bool \<times> videoflip_t" where
  "get_videoflip str vf =
     (if length str > 1 then (False, vf)
      else if char0 str = CHR ''I'' then (True, INVERT)
      else if char0 str = CHR ''H'' then (True, HFLIP)
      else if char0 str = CHR ''V'' then (True, VFLIP)
      else (False, vf))"

definition get_videorotate :: "string \<Rightarrow> videoflip_t \<Rightarrow> bool \<times> videoflip_t" where
  "get_videorotate str vf =
     (if length str > 1 then (False, vf)
      else if char0 str = CHR ''L'' then (True, LEFT)
      else if char0 str = CHR ''R'' then (True, RIGHT)
      else (False, vf))"

section \<open>The argument loop of \<open>main\<close>\<close>

text \<open>
  The variables the loop writes: the locals of \<open>main\<close> and the static \<open>server_timeout\<close>,
  which only the \<open>-t\<close> branch assigns.
\<close>

record main_vars =
  server_name :: string
  use_audio :: bool
  use_random_hw_addr :: bool
  debug_log :: bool
  display :: "u16 list"
  tcp :: "u16 list"
  udp :: "u16 list"
  videoflip :: "videoflip_t list"
  videosink :: string
  audiosink :: string
  server_timeout :: u32

definition main_init :: main_vars where
  "main_init =
     \<lparr>server_name = ''UxPlay'', use_audio = True, use_random_hw_addr = False,
      debug_log = False, display = [0, 0, 0, 0, 0], tcp = [0, 0, 0], udp = [0, 0, 0],
      videoflip = [NONE, NONE], videosink = ''autovideosink'',
      audiosink = ''autoaudiosink'', server_timeout = 0\<rparr>"

text \<open>
  What the source prints before \<open>exit\<close>: \<open>No_argument\<close> is the message of
  \<open>option_has_value\<close> (it names the option), \<open>Invalid_value\<close> the \<open>fprintf\<close> of the
  \<open>-s\<close>, \<open>-fps\<close>, \<open>-f\<close> and \<open>-r\<close> branches and \<open>Invalid_ports\<close> the message of
  \<open>get_ports\<close> (option and value), \<open>Unknown_option\<close> the last branch, \<open>Usage\<close> is
  \<open>print_info\<close>.
\<close>

datatype diag =
    No_argument string
  | Invalid_value string string
  | Invalid_ports string string
  | Unknown_option string
  | Usage

text \<open>
  How the loop ends: \<open>exit(status)\<close> after a message, the end of the argument list, or
  \<open>Fault\<close>, the construction of a \<open>std::string\<close> from the null pointer \<open>argv[argc]\<close>.
\<close>

datatype outcome = Exit nat diag | Parsed main_vars | Fault

text \<open>
  \<open>option_has_value(i, argc, option, argv[i+1])\<close>, on \<open>rest\<close>, the arguments after
  \<open>argv[i]\<close>: \<open>i >= argc - 1\<close> is \<open>rest = []\<close>.
\<close>

definition option_has_value :: "string list \<Rightarrow> bool" where
  "option_has_value rest = (case rest of [] \<Rightarrow> False | nxt # _ \<Rightarrow> char0 nxt \<noteq> CHR ''-'')"

text \<open>
  One turn of the loop for the option \<open>arg\<close>, followed by \<open>rest\<close>. The result is the way
  the program ends there, or the variables and the number of further arguments consumed
  (the \<open>++i\<close> of the branch).
\<close>

definition parse_option :: "main_vars \<Rightarrow> string \<Rightarrow> string list \<Rightarrow> outcome + (main_vars \<times> nat)" where
  "parse_option v arg rest =
     (if arg = ''-n'' then
        (if \<not> option_has_value rest then Inl (Exit 1 (No_argument arg))
         else Inr (v\<lparr>server_name := hd rest\<rparr>, 1))
      else if arg = ''-s'' then
        (if \<not> option_has_value rest then Inl (Exit 1 (No_argument arg))
         else (let (ok, w, h, r) =
                     get_display_settings (hd rest) (display v ! 0, display v ! 1, display v ! 2)
               in if \<not> ok then Inl (Exit 1 (Invalid_value arg (hd rest)))
                  else Inr (v\<lparr>display := (display v)[0 := w, 1 := h, 2 := r]\<rparr>, 1)))
      else if arg = ''-fps'' then
        (if \<not> option_has_value rest then Inl (Exit 1 (No_argument arg))
         else (let (ok, n) = get_value (hd rest) 255
               in if \<not> ok then Inl (Exit 1 (Invalid_value arg (hd rest)))
                  else Inr (v\<lparr>display := (display v)[3 := (of_nat (unat n) :: u16)]\<rparr>, 1)))
      else if arg = ''-o'' then Inr (v\<lparr>display := (display v)[4 := 1]\<rparr>, 0)
      else if arg = ''-f'' then
        (if \<not> option_has_value rest then Inl (Exit 1 (No_argument arg))
         else (let (ok, vf) = get_videoflip (hd rest) (videoflip v ! 0)
               in if \<not> ok then Inl (Exit 1 (Invalid_value arg (hd rest)))
                  else Inr (v\<lparr>videoflip := (videoflip v)[0 := vf]\<rparr>, 1)))
      else if arg = ''-r'' then
        (if \<not> option_has_value rest then Inl (Exit 1 (No_argument arg))
         else (let (ok, vf) = get_videorotate (hd rest) (videoflip v ! 1)
               in if \<not> ok then Inl (Exit 1 (Invalid_value arg (hd rest)))
                  else Inr (v\<lparr>videoflip := (videoflip v)[1 := vf]\<rparr>, 1)))
      else if arg = ''-p'' then
        (if rest = [] \<or> char0 (hd rest) = CHR ''-'' then
           Inr (v\<lparr>tcp := [7100, 7000, 7001], udp := [7011, 6001, 6000]\<rparr>, 0)
         else if hd rest = ''tcp'' then
           (case tl rest of
              [] \<Rightarrow> Inl Fault
            | pv # _ \<Rightarrow>
                (let (ok, port) = get_ports 3 pv (tcp v)
                 in if \<not> ok then Inl (Exit 1 (Invalid_ports (arg @ '' tcp'') pv))
                    else Inr (v\<lparr>tcp := port\<rparr>, 2)))
         else if hd rest = ''udp'' then
           (case tl rest of
              [] \<Rightarrow> Inl Fault
            | pv # _ \<Rightarrow>
                (let (ok, port) = get_ports 3 pv (udp v)
                 in if \<not> ok then Inl (Exit 1 (Invalid_ports (arg @ '' udp'') pv))
                    else Inr (v\<lparr>udp := port\<rparr>, 2)))
         else
           (let (ok, port) = get_ports 3 (hd rest) (tcp v)
            in if \<not> ok then Inl (Exit 1 (Invalid_ports arg (hd rest)))
               else Inr (v\<lparr>tcp := port, udp := (udp v)[1 := port ! 1, 2 := port ! 2]\<rparr>, 1)))
      else if arg = ''-m'' then Inr (v\<lparr>use_random_hw_addr := True\<rparr>, 0)
      else if arg = ''-a'' then Inr (v\<lparr>use_audio := False\<rparr>, 0)
      else if arg = ''-d'' then Inr (v\<lparr>debug_log := \<not> debug_log v\<rparr>, 0)
      else if arg = ''-h'' \<or> arg = ''-v'' then Inl (Exit 0 Usage)
      else if arg = ''-vs'' then
        (if \<not> option_has_value rest then Inl (Exit 1 (No_argument arg))
         else Inr (v\<lparr>videosink := hd rest\<rparr>, 1))
      else if arg = ''-as'' then
        (if \<not> option_has_value rest then Inl (Exit 1 (No_argument arg))
         else Inr (v\<lparr>audiosink := hd rest\<rparr>, 1))
      else if arg = ''-t'' then
        (if \<not> option_has_value rest then Inl (Exit 1 (No_argument arg))
         else (let (ok, n) = get_value (hd rest) 0
               in Inr (v\<lparr>server_timeout := n\<rparr>, 1)))
      else Inl (Exit 1 (Unknown_option arg)))"

text \<open>The loop \<open>for (i = 1; i < argc; i++)\<close> over \<open>argv[1 .. argc - 1]\<close>.\<close>

fun parse_args :: "main_vars \<Rightarrow> string list \<Rightarrow> outcome" where
  "parse_args v [] = Parsed v"
| "parse_args v (arg # rest) =
     (case parse_option v arg rest of
        Inl out \<Rightarrow> out
      | Inr (v', k) \<Rightarrow> parse_args v' (drop k rest))"

section \<open>Hardware address\<close>

definition MULTICAST :: nat where
  "MULTICAST = 0"

definition LOCAL :: nat where
  "LOCAL = 1"

definition OCTETS :: nat where
  "OCTETS = 6"

definition hex_digit :: "nat \<Rightarrow> char" where
  "hex_digit n = ''0123456789abcdef'' ! n"

text \<open>The digits \<open>printf\<close> writes for \<open>%x\<close>.\<close>

fun hex_str :: "nat \<Rightarrow> string" where
  "hex_str n = (if n < 16 then [hex_digit n] else hex_str (n div 16) @ [hex_digit (n mod 16)])"

declare hex_str.simps [simp del]

text \<open>
  \<open>snprintf(str, 3, "%02x", octet)\<close>: at least two digits, padded with \<open>0\<close>, and at most
  two characters kept in the three-byte buffer.
\<close>

definition snprintf_02x :: "nat \<Rightarrow> string" where
  "snprintf_02x n = take 2 (replicate (2 - length (hex_str n)) CHR ''0'' @ hex_str n)"

text \<open>The loop of \<open>random_mac\<close> at index \<open>i\<close>; \<open>rnd k\<close> is the result of the call \<open>k\<close> of \<open>rand()\<close>.\<close>

function random_mac_loop :: "(nat \<Rightarrow> nat) \<Rightarrow> nat \<Rightarrow> string \<Rightarrow> string" where
  "random_mac_loop rnd i mac_address =
     (if i < OCTETS
      then random_mac_loop rnd (i + 1) ((mac_address @ '':'') @ snprintf_02x (rnd i mod 256))
      else mac_address)"
  by pat_completeness auto
termination
  by (relation "measure (\<lambda>(rnd, i, mac_address). OCTETS - i)") auto

declare random_mac_loop.simps [simp del]

definition random_mac :: "(nat \<Rightarrow> nat) \<Rightarrow> string" where
  "random_mac rnd =
     (let octet = rnd 0 mod 64;
          octet = push_bit 1 octet + LOCAL;
          octet = push_bit 1 octet + MULTICAST
      in random_mac_loop rnd 1 (snprintf_02x octet))"

definition isxdigit :: "char \<Rightarrow> bool" where
  "isxdigit c = (isdigit c \<or> (97 \<le> (of_char c :: nat) \<and> (of_char c :: nat) \<le> 102)
                 \<or> (65 \<le> (of_char c :: nat) \<and> (of_char c :: nat) \<le> 70))"

definition xdigit_val :: "char \<Rightarrow> nat" where
  "xdigit_val c = (if isdigit c then of_char c - 48
                   else if 97 \<le> (of_char c :: nat) then of_char c - 87
                   else of_char c - 55)"

fun acc_xdigits :: "nat \<Rightarrow> string \<Rightarrow> nat" where
  "acc_xdigits a [] = a"
| "acc_xdigits a (c # cs) = (if isxdigit c then acc_xdigits (16 * a + xdigit_val c) cs else a)"

text \<open>
  \<open>std::stol(s, NULL, 16)\<close>: \<open>strtol\<close> in base 16 (white space, a sign, an optional
  \<open>0x\<close> before a hexadecimal digit, the digits). \<open>None\<close> is the exception it throws
  when nothing is converted or the value does not fit a \<open>long\<close>.
\<close>

definition stol16 :: "string \<Rightarrow> int option" where
  "stol16 s =
     (let t = dropWhile isspace s;
          neg = (char0 t = CHR ''-'');
          u = (if char0 t = CHR ''-'' \<or> char0 t = CHR ''+'' then tl t else t);
          u = (if char0 u = CHR ''0'' \<and> (char0 (tl u) = CHR ''x'' \<or> char0 (tl u) = CHR ''X'')
                  \<and> isxdigit (char0 (drop 2 u))
               then drop 2 u else u)
      in if isxdigit (char0 u)
         then (let v = int (acc_xdigits 0 u);
                   l = (if neg then - v else v)
               in if l < - (2 ^ 63) \<or> l > 2 ^ 63 - 1 then None else Some l)
         else None)"

text \<open>The loop of \<open>parse_hw_addr\<close>; the vector \<open>hw_addr\<close> grows by one \<open>char\<close> each turn.\<close>

function parse_hw_addr_loop :: "string \<Rightarrow> nat \<Rightarrow> u8 list \<Rightarrow> u8 list option" where
  "parse_hw_addr_loop str i hw_addr =
     (if i < length str
      then (case stol16 (drop i str) of
              None \<Rightarrow> None
            | Some l \<Rightarrow> parse_hw_addr_loop str (i + 3) (hw_addr @ [of_int l]))
      else Some hw_addr)"
  by pat_completeness auto
termination
  by (relation "measure (\<lambda>(str, i, hw_addr). length str - i)") auto

declare parse_hw_addr_loop.simps [simp del]

definition parse_hw_addr :: "string \<Rightarrow> u8 list \<Rightarrow> u8 list option" where
  "parse_hw_addr str hw_addr = parse_hw_addr_loop str 0 hw_addr"

text \<open>The text of an address: its bytes as \<open>%02x\<close>, joined by colons.\<close>

fun mac_text :: "u8 list \<Rightarrow> string" where
  "mac_text [] = []"
| "mac_text [b] = snprintf_02x (unat b)"
| "mac_text (b # c # bs) = snprintf_02x (unat b) @ '':'' @ mac_text (c # bs)"

section \<open>Server life cycle\<close>

text \<open>
  The libraries behind \<open>raop_*\<close>, \<open>dnssd_*\<close>, \<open>logger_*\<close> and the renderers are not part
  of the file. A non-null pointer they return is a \<open>handle\<close>; the calls made to them are
  recorded in order (the calls that only configure logging are left out).
\<close>

type_synonym handle = nat

datatype call =
    Raop_init
  | Raop_set_display u16 u16 u16 u16 u16
  | Raop_set_tcp_ports "u16 list"
  | Raop_set_udp_ports "u16 list"
  | Logger_init
  | Video_renderer_init string
  | Audio_renderer_init string
  | Video_renderer_start handle
  | Audio_renderer_start handle
  | Raop_start handle
  | Raop_set_port handle u16
  | Dnssd_init string "u8 list"
  | Raop_set_dnssd handle
  | Dnssd_register_raop u16
  | Dnssd_register_airplay u16
  | Raop_destroy handle
  | Dnssd_unregister_raop handle
  | Dnssd_unregister_airplay handle
  | Dnssd_destroy handle
  | Audio_renderer_destroy handle
  | Video_renderer_destroy handle
  | Logger_destroy handle
  | Video_renderer_update_background "handle option" int

text \<open>The static variables of the file (\<open>server_timeout\<close> is in \<open>main_vars\<close>), and the calls made so far.\<close>

record globals =
  dnssd :: "handle option"
  raop :: "handle option"
  video_renderer :: "handle option"
  audio_renderer :: "handle option"
  render_logger :: "handle option"
  relaunch_server :: bool
  open_connections :: u32
  connections_stopped :: bool
  counter :: u32
  use_video :: bool
  calls :: "call list"

definition globals_init :: globals where
  "globals_init =
     \<lparr>dnssd = None, raop = None, video_renderer = None, audio_renderer = None,
      render_logger = None, relaunch_server = False, open_connections = 0,
      connections_stopped = False, counter = 0, use_video = True, calls = []\<rparr>"

text \<open>What the libraries answer during one \<open>start_server\<close>.\<close>

record init_results =
  raop_init_r :: "handle option"
  logger_init_r :: "handle option"
  video_renderer_init_r :: "handle option"
  audio_renderer_init_r :: "handle option"
  raop_start_port :: u16
  dnssd_init_r :: "handle option"
  dnssd_init_error :: bool

definition emit :: "call \<Rightarrow> globals \<Rightarrow> globals" where
  "emit c g = g\<lparr>calls := calls g @ [c]\<rparr>"

text \<open>
  \<open>if (p) f(p)\<close> for a library call \<open>f\<close>. It also stands for the unguarded calls on
  \<open>raop\<close> in \<open>start_server\<close>, made where \<open>raop\<close> has been checked.
\<close>

definition call_if :: "handle option \<Rightarrow> (handle \<Rightarrow> call) \<Rightarrow> globals \<Rightarrow> globals" where
  "call_if p c g = (case p of None \<Rightarrow> g | Some h \<Rightarrow> emit (c h) g)"

text \<open>\<open>stop_server\<close>: each call is guarded by its pointer, and no pointer is assigned.\<close>

definition stop_server :: "globals \<Rightarrow> globals" where
  "stop_server g =
     (let g = call_if (raop g) Raop_destroy g;
          g = call_if (dnssd g) Dnssd_unregister_raop g;
          g = call_if (dnssd g) Dnssd_unregister_airplay g;
          g = call_if (dnssd g) Dnssd_destroy g;
          g = call_if (audio_renderer g) Audio_renderer_destroy g;
          g = call_if (video_renderer g) Video_renderer_destroy g;
          g = call_if (render_logger g) Logger_destroy g
      in g)"

text \<open>
  \<open>start_server\<close>. The arrays \<open>display\<close>, \<open>tcp\<close>, \<open>udp\<close> and \<open>videoflip\<close> are those of
  \<open>main\<close> (passed as pointers), so the variables of \<open>main\<close> are returned with the result;
  \<open>use_audio\<close> is a copy. The steps after the video renderer are \<open>start_server_tail\<close>.
\<close>

definition start_server_tail ::
    "init_results \<Rightarrow> u8 list \<Rightarrow> main_vars \<Rightarrow> bool \<Rightarrow> globals \<Rightarrow> int \<times> main_vars \<times> globals" where
  "start_server_tail env hw_addr v use_audio0 g =
     (let g = (if use_video g then call_if (video_renderer g) Video_renderer_start g else g);
          g = call_if (audio_renderer g) Audio_renderer_start g;
          g = call_if (raop g) Raop_start g;
          port = raop_start_port env;
          g = call_if (raop g) (\<lambda>h. Raop_set_port h port) g;
          g = emit (Dnssd_init (server_name v) hw_addr) (g\<lparr>dnssd := dnssd_init_r env\<rparr>)
      in if dnssd_init_error env then (- 2, v, stop_server g)
         else (let g = call_if (raop g) Raop_set_dnssd g;
                   g = emit (Dnssd_register_raop port) g;
                   port = (if tcp v ! 2 \<noteq> 0 then tcp v ! 2
                           else if unat port \<noteq> HIGHEST_PORT then port + 1 else port - 1);
                   g = emit (Dnssd_register_airplay port) g
               in (0, v, g)))"

definition start_server ::
    "init_results \<Rightarrow> u8 list \<Rightarrow> main_vars \<Rightarrow> globals \<Rightarrow> int \<times> main_vars \<times> globals" where
  "start_server env hw_addr v g =
     (let g = emit Raop_init (g\<lparr>raop := raop_init_r env\<rparr>)
      in if raop g = None then (- 1, v, g)
         else (let (v, g) = (if videosink v = ''0''
                             then (v\<lparr>display := (display v)[3 := 1]\<rparr>, g\<lparr>use_video := False\<rparr>)
                             else (v, g));
                   use_audio0 = (if audiosink v = ''0'' then False else use_audio v);
                   g = emit (Raop_set_display (display v ! 0) (display v ! 1) (display v ! 2)
                               (display v ! 3) (display v ! 4)) g;
                   g = emit (Raop_set_tcp_ports (tcp v)) g;
                   g = emit (Raop_set_udp_ports (udp v)) g;
                   g = emit Logger_init (g\<lparr>render_logger := logger_init_r env\<rparr>)
               in if render_logger g = None then (- 1, v, stop_server g)
                  else (let g = emit (Video_renderer_init (videosink v))
                                  (g\<lparr>video_renderer := video_renderer_init_r env\<rparr>)
                        in if video_renderer g = None then (- 1, v, stop_server g)
                           else if \<not> use_audio0 then start_server_tail env hw_addr v use_audio0 g
                           else (let g = emit (Audio_renderer_init (audiosink v))
                                           (g\<lparr>audio_renderer := audio_renderer_init_r env\<rparr>)
                                 in if audio_renderer g = None then (- 1, v, stop_server g)
                                    else start_server_tail env hw_addr v use_audio0 g))))"

section \<open>Event loop and connection callbacks\<close>

text \<open>
  Each handler returns the variables and whether it called \<open>g_main_loop_quit\<close>.
  \<open>connection_callback\<close> reads \<open>server_timeout\<close>, its first argument here.
\<close>

definition connection_callback :: "u32 \<Rightarrow> globals \<Rightarrow> globals \<times> bool" where
  "connection_callback timeout g =
     (if \<not> connections_stopped g then (g\<lparr>counter := 0\<rparr>, False)
      else (let g = g\<lparr>counter := counter g + 1\<rparr>
            in (g, counter g = timeout)))"

definition sigint_callback :: "globals \<Rightarrow> globals \<times> bool" where
  "sigint_callback g = (g\<lparr>relaunch_server := False\<rparr>, True)"

definition sigterm_callback :: "globals \<Rightarrow> globals \<times> bool" where
  "sigterm_callback g = (g\<lparr>relaunch_server := False\<rparr>, True)"

definition conn_init :: "globals \<Rightarrow> globals" where
  "conn_init g =
     emit (Video_renderer_update_background (video_renderer g) 1)
       (g\<lparr>open_connections := open_connections g + 1, connections_stopped := False\<rparr>)"

definition conn_destroy :: "globals \<Rightarrow> globals" where
  "conn_destroy g =
     (let g = emit (Video_renderer_update_background (video_renderer g) (- 1)) g;
          g = g\<lparr>open_connections := open_connections g - 1\<rparr>
      in if open_connections g = 0 then g\<lparr>connections_stopped := True\<rparr> else g)"

text \<open>
  What the main loop dispatches: the one-second timer, the two signals, and the two
  connection callbacks of the protocol engine. The timer exists only when
  \<open>server_timeout\<close> is not 0.
\<close>

datatype event = Tick | Conn_open | Conn_close | Sigint | Sigterm

definition dispatch :: "u32 \<Rightarrow> event \<Rightarrow> globals \<Rightarrow> globals \<times> bool" where
  "dispatch timeout e g =
     (case e of
        Tick \<Rightarrow> (if timeout \<noteq> 0 then connection_callback timeout g else (g, False))
      | Conn_open \<Rightarrow> (conn_init g, False)
      | Conn_close \<Rightarrow> (conn_destroy g, False)
      | Sigint \<Rightarrow> sigint_callback g
      | Sigterm \<Rightarrow> sigterm_callback g)"

text \<open>
  \<open>g_main_loop_run\<close> on the events that arrive: it returns at the first handler that
  quits the loop; \<open>False\<close> says that the events ended with the loop still running.
\<close>

fun g_main_loop_run :: "u32 \<Rightarrow> globals \<Rightarrow> event list \<Rightarrow> globals \<times> bool" where
  "g_main_loop_run timeout g [] = (g, False)"
| "g_main_loop_run timeout g (e # es) =
     (case dispatch timeout e g of
        (g', True) \<Rightarrow> (g', True)
      | (g', False) \<Rightarrow> g_main_loop_run timeout g' es)"

definition main_loop :: "u32 \<Rightarrow> globals \<Rightarrow> event list \<Rightarrow> globals \<times> bool" where
  "main_loop timeout g evs = g_main_loop_run timeout (g\<lparr>relaunch_server := True\<rparr>) evs"

text \<open>
  The part of \<open>main\<close> from the label \<open>relaunch\<close> on, one list entry for each run of the
  server: what the libraries answer and the events of its main loop. The result is the
  exit status (\<open>None\<close>: the last loop is still running) with the variables.
\<close>

fun relaunch ::
    "u8 list \<Rightarrow> main_vars \<Rightarrow> globals \<Rightarrow> (init_results \<times> event list) list
      \<Rightarrow> int option \<times> main_vars \<times> globals" where
  "relaunch hw_addr v g [] = (None, v, g)"
| "relaunch hw_addr v g ((env, evs) # runs) =
     (case start_server env hw_addr v (g\<lparr>connections_stopped := False\<rparr>) of
        (rc, v', g') \<Rightarrow>
          if rc \<noteq> 0 then (Some 1, v', g')
          else (case main_loop (server_timeout v') g' evs of
                  (g'', quit) \<Rightarrow>
                    if \<not> quit then (None, v', g'')
                    else if relaunch_server g'' then relaunch hw_addr v' (stop_server g'') runs
                    else (Some 0, v', stop_server g'')))"

declare fill_ports.simps [simp del]
declare get_ports_loop.simps [simp del]

section \<open>Texts the claims speak about\<close>

text \<open>
  A textual address as groups of two characters joined by colons, and the byte a group
  of two hexadecimal digits denotes.
\<close>

fun groups_text :: "(char \<times> char) list \<Rightarrow> string" where
  "groups_text [] = []"
| "groups_text [(a, b)] = [a, b]"
| "groups_text ((a, b) # g # gs) = a # b # CHR '':'' # groups_text (g # gs)"

definition group_byte :: "char \<times> char \<Rightarrow> u8" where
  "group_byte g = of_nat (16 * xdigit_val (fst g) + xdigit_val (snd g))"

definition hex_group :: "u8 \<Rightarrow> char \<times> char" where
  "hex_group b = (hex_digit (unat b div 16), hex_digit (unat b mod 16))"

text \<open>
  Decimal texts: \<open>digits t\<close> says that \<open>t\<close> is a non-empty text of decimal digits, \<open>dec t\<close>
  is its value. \<open>stray t\<close> says that \<open>t\<close> has a character that is neither a digit, nor
  white space, nor a sign.
\<close>

definition dec :: "string \<Rightarrow> nat" where
  "dec t = foldl (\<lambda>a c. 10 * a + digit_val c) 0 t"

definition digits :: "string \<Rightarrow> bool" where
  "digits t = (t \<noteq> [] \<and> list_all isdigit t)"

definition stray :: "string \<Rightarrow> bool" where
  "stray t = (\<exists>c \<in> set t. \<not> isdigit c \<and> \<not> isspace c \<and> c \<noteq> CHR ''+'' \<and> c \<noteq> CHR ''-'')"

text \<open>The tokens of a comma-separated text.\<close>

fun split_commas :: "string \<Rightarrow> string list" where
  "split_commas [] = [[]]"
| "split_commas (c # cs) =
     (if c = CHR '','' then [] # split_commas cs
      else (case split_commas cs of [] \<Rightarrow> [[c]] | t # ts \<Rightarrow> (c # t) # ts))"

text \<open>
  The checks \<open>get_ports\<close> makes on one token: its length, its first character, that
  \<open>strtoul\<close> reads it to its end, and the range of the value.
\<close>

definition port_token :: "string \<Rightarrow> bool" where
  "port_token t =
     (length t \<noteq> 0 \<and> length t \<le> 5 \<and> char0 t \<noteq> CHR ''-'' \<and> snd (strtoul t) = [] \<and>
      LOWEST_ALLOWED_PORT \<le> fst (strtoul t) \<and> fst (strtoul t) \<le> HIGHEST_PORT)"

text \<open>
  The segments of a display text \<open>w x h [@ r]\<close>: the text before the first \<open>x\<close>, the text
  after it up to the first \<open>@\<close>, and the text after that \<open>@\<close>. A segment of at most \<open>n\<close>
  characters is \<open>malformed\<close> when it is empty, too long, begins with \<open>-\<close>, has a stray
  character, or is a decimal text of value 0.
\<close>

definition seg_width :: "string \<Rightarrow> string" where
  "seg_width s = takeWhile (\<lambda>c. c \<noteq> CHR ''x'') s"

definition seg_rest :: "string \<Rightarrow> string" where
  "seg_rest s = drop (length (seg_width s) + 1) s"

definition seg_height :: "string \<Rightarrow> string" where
  "seg_height s = takeWhile (\<lambda>c. c \<noteq> CHR ''@'') (seg_rest s)"

definition seg_refresh :: "string \<Rightarrow> string" where
  "seg_refresh s = drop (length (seg_height s) + 1) (seg_rest s)"

definition malformed :: "nat \<Rightarrow> string \<Rightarrow> bool" where
  "malformed n t =
     (t = [] \<or> length t > n \<or> char0 t = CHR ''-'' \<or> stray t \<or> (digits t \<and> dec t = 0))"

text \<open>
  The checks \<open>get_display_settings\<close> makes on one segment of at most \<open>n\<close> characters:
  its length, its first character, that \<open>strtoul\<close> reads it to its end, and that the
  value stored in the \<open>unsigned short\<close> is not 0.
\<close>

definition segment_ok :: "nat \<Rightarrow> string \<Rightarrow> bool" where
  "segment_ok n t =
     (length t \<noteq> 0 \<and> length t \<le> n \<and> char0 t \<noteq> CHR ''-'' \<and> snd (strtoul t) = [] \<and>
      (of_nat (fst (strtoul t)) :: u16) \<noteq> 0)"

text \<open>
  A segment in plain form: optional leading white space, an optional \<open>+\<close>, then a decimal
  text (\<open>number_part\<close>) of nonzero value, at most \<open>n\<close> characters in all. \<open>blank_minus\<close>
  says that white space is followed by \<open>-\<close>.
\<close>

definition number_part :: "string \<Rightarrow> string" where
  "number_part t =
     (let u = dropWhile isspace t in if char0 u = CHR ''+'' then tl u else u)"

definition plain :: "nat \<Rightarrow> string \<Rightarrow> bool" where
  "plain n t = (length t \<le> n \<and> digits (number_part t) \<and> dec (number_part t) \<noteq> 0)"

definition blank_minus :: "string \<Rightarrow> bool" where
  "blank_minus t = (isspace (char0 t) \<and> char0 (dropWhile isspace t) = CHR ''-'')"

text \<open>
  Event lists in which connections never overlap: every \<open>Conn_open\<close> is followed by its
  \<open>Conn_close\<close> before the next \<open>Conn_open\<close>, with ticks anywhere and no signal. The
  boolean says whether a connection is open.
\<close>

fun lone :: "bool \<Rightarrow> event list \<Rightarrow> bool" where
  "lone b [] = True"
| "lone b (Tick # es) = lone b es"
| "lone b (Conn_open # es) = (\<not> b \<and> lone True es)"
| "lone b (Conn_close # es) = (b \<and> lone False es)"
| "lone b (Sigint # es) = False"
| "lone b (Sigterm # es) = False"

section \<open>Sample answers of the libraries\<close>

text \<open>Every initialisation succeeds (first run); \<open>logger_init\<close> fails (a later run).\<close>

definition env_no_logger :: init_results where
  "env_no_logger = \<lparr>raop_init_r = Some 11, logger_init_r = None, video_renderer_init_r = Some 13,
     audio_renderer_init_r = Some 14, raop_start_port = 7000, dnssd_init_r = Some 15,
     dnssd_init_error = False\<rparr>"

definition env_ok :: init_results where
  "env_ok = \<lparr>raop_init_r = Some 1, logger_init_r = Some 2, video_renderer_init_r = Some 3,
     audio_renderer_init_r = Some 4, raop_start_port = 7000, dnssd_init_r = Some 5,
     dnssd_init_error = False\<rparr>"

section \<open>Evaluation rules\<close>

lemmas c_simps =
  strtoul_def isspace_def isdigit_def digit_val_def char0_def ULONG_MAX_def find_first_of_def
  LOWEST_ALLOWED_PORT_def HIGHEST_PORT_def

lemmas parse_simps =
  c_simps get_ports_def get_ports_loop.simps fill_ports.simps duplicate_scan_def
  parse_option_def get_display_settings_def get_value_def main_init_def option_has_value_def

lemmas life_simps = start_server_def start_server_tail_def stop_server_def call_if_def emit_def
  globals_init_def main_init_def env_ok_def env_no_logger_def HIGHEST_PORT_def

lemmas loop_simps = main_loop_def dispatch_def connection_callback_def conn_init_def conn_destroy_def
  sigint_callback_def sigterm_callback_def emit_def

section \<open>The argument loop on whole command lines\<close>

text \<open>
  C1. End to end: the arguments \<open>-s 1280x720@30 -fps 24 -p 7000 -t 5\<close> are accepted with
  display \<open>{1280, 720, 30, 24, 0}\<close>, TCP ports \<open>{7000, 7001, 7002}\<close> and timeout 5. The
  \<open>-p n\<close> branch copies \<open>tcp[1]\<close> and \<open>tcp[2]\<close> to \<open>udp\<close> and leaves \<open>udp[0]\<close> as it was:
  the UDP ports are \<open>{0, 7001, 7002}\<close>, not \<open>{7000, 7001, 7002}\<close>.
\<close>

theorem C1_end_to_end_udp_first_port_unset:
  "parse_args main_init
     [''-s'', ''1280x720@30'', ''-fps'', ''24'', ''-p'', ''7000'', ''-t'', ''5''] =
   Parsed (main_init\<lparr>display := [1280, 720, 30, 24, 0], tcp := [7000, 7001, 7002],
                      udp := [0, 7001, 7002], server_timeout := 5\<rparr>)"
  by (simp add: parse_simps)

text \<open>
  C4. Every malformed value should end the program with status 1. The \<open>-t\<close> branch
  drops the result of \<open>get_value\<close>: \<open>-t abc\<close> and an eleven-digit \<open>-t\<close> value are
  accepted with the timeout left at 0, where the same text after \<open>-fps\<close> exits with
  status 1. \<open>-p tcp\<close> and \<open>-p udp\<close> as the last arguments read \<open>argv[argc]\<close> and do not
  reach \<open>exit(1)\<close>.
\<close>

theorem C4_timeout_value_not_checked:
  "parse_args main_init [''-t'', ''abc''] = Parsed main_init \<and>
   parse_args main_init [''-t'', ''12345678901''] = Parsed main_init \<and>
   parse_args main_init [''-fps'', ''abc''] = Exit 1 (Invalid_value ''-fps'' ''abc'') \<and>
   parse_args main_init [''-p'', ''tcp''] = Fault \<and>
   parse_args main_init [''-p'', ''udp''] = Fault"
  by (simp add: parse_simps)

text \<open>
  C8. No accepted value should be stored wrapped. \<open>get_value\<close> admits ten characters and
  stores the \<open>unsigned long\<close> in an \<open>unsigned int\<close>: \<open>-t 9999999999\<close> is accepted and the
  timeout becomes \<open>9999999999 mod 2^32 = 1410065407\<close>; \<open>4294967296\<close> is stored as 0.
\<close>

theorem C8_timeout_wraps_mod_2_32:
  "parse_args main_init [''-t'', ''9999999999''] =
     Parsed (main_init\<lparr>server_timeout := 1410065407\<rparr>) \<and>
   (9999999999 :: nat) mod 2 ^ 32 = 1410065407 \<and>
   parse_args main_init [''-t'', ''4294967296''] = Parsed main_init"
  by (simp add: parse_simps)

section \<open>The idle watchdog\<close>

text \<open>
  C5 as stated fails: with timeout 3 and no connection ever opened, \<open>open_connections\<close> is
  0 but \<open>connections_stopped\<close> is false (\<open>main\<close> clears it before each start), so every
  tick sets the counter to 0 and the loop does not end.
\<close>

theorem C5_no_idle_count_before_first_close:
  "open_connections globals_init = 0 \<and>
   main_loop 3 globals_init [Tick, Tick, Tick, Tick, Tick] =
     (globals_init\<lparr>relaunch_server := True\<rparr>, False) \<and>
   counter (fst (main_loop 3 globals_init [Tick, Tick, Tick, Tick, Tick])) = 0"
  by (simp add: loop_simps globals_init_def)

text \<open>
  C5, amended. With timeout 3: while \<open>connections_stopped\<close> is false (after a start, or
  after a connection was opened) a tick sets the counter to 0 and does not end the loop.
  Once \<open>connections_stopped\<close> is true with the counter at 0, the first and second tick
  count and the third ends the loop with \<open>relaunch_server\<close> true; in particular this
  happens after the close of the only open connection. \<open>conn_init\<close> clears
  \<open>connections_stopped\<close>, so that the next tick sets the counter to 0.
\<close>

theorem C5_idle_watchdog_after_last_close:
  "(\<not> connections_stopped g \<longrightarrow> connection_callback 3 g = (g\<lparr>counter := 0\<rparr>, False)) \<and>
   (connections_stopped g \<and> counter g = 0 \<longrightarrow>
      main_loop 3 g [Tick] = (g\<lparr>relaunch_server := True, counter := 1\<rparr>, False) \<and>
      main_loop 3 g [Tick, Tick] = (g\<lparr>relaunch_server := True, counter := 2\<rparr>, False) \<and>
      main_loop 3 g (Tick # Tick # Tick # evs) = (g\<lparr>relaunch_server := True, counter := 3\<rparr>, True)) \<and>
   (open_connections g = 1 \<and> counter g = 0 \<longrightarrow>
      snd (main_loop 3 g (Conn_close # Tick # Tick # Tick # evs)) \<and>
      relaunch_server (fst (main_loop 3 g (Conn_close # Tick # Tick # Tick # evs))) \<and>
      \<not> snd (main_loop 3 g [Conn_close, Tick, Tick])) \<and>
   \<not> connections_stopped (conn_init g) \<and>
   connection_callback 3 (conn_init g) = ((conn_init g)\<lparr>counter := 0\<rparr>, False)"
  by (simp add: loop_simps)

theorem C5_idle_watchdog_after_last_close_witness:
  "open_connections (conn_init globals_init) = 1 \<and> counter (conn_init globals_init) = 0 \<and>
   snd (main_loop 3 (conn_init globals_init) [Conn_close, Tick, Tick, Tick]) \<and>
   relaunch_server (fst (main_loop 3 (conn_init globals_init) [Conn_close, Tick, Tick, Tick])) \<and>
   \<not> snd (main_loop 3 (conn_init globals_init) [Conn_close, Tick, Tick]) \<and>
   connection_callback 3 (conn_init globals_init) = ((conn_init globals_init)\<lparr>counter := 0\<rparr>, False)"
proof -
  have h: "open_connections (conn_init globals_init) = 1 \<and> counter (conn_init globals_init) = 0
      \<and> \<not> connections_stopped (conn_init globals_init)"
    by (simp add: conn_init_def emit_def globals_init_def)
  with C5_idle_watchdog_after_last_close [of "conn_init globals_init" "[]"] show ?thesis
    by blast
qed

lemma conn_destroy_open: "open_connections (conn_destroy g) = open_connections g - 1"
  by (simp add: conn_destroy_def emit_def Let_def)

lemma conn_destroy_stopped:
  "connections_stopped (conn_destroy g) = (connections_stopped g \<or> open_connections g = 1)"
  by (auto simp add: conn_destroy_def emit_def Let_def)

lemma conn_destroy_funpow:
  "n < unat (open_connections g) \<Longrightarrow>
     open_connections ((conn_destroy ^^ n) g) = open_connections g - of_nat n \<and>
     connections_stopped ((conn_destroy ^^ n) g) = connections_stopped g"
proof (induction n)
  case 0
  then show ?case by simp
next
  case (Suc n)
  then have ih: "open_connections ((conn_destroy ^^ n) g) = open_connections g - of_nat n"
      "connections_stopped ((conn_destroy ^^ n) g) = connections_stopped g"
    by simp_all
  have "open_connections g - of_nat n \<noteq> 1"
  proof
    assume "open_connections g - of_nat n = 1"
    then have "open_connections g = of_nat (Suc n)"
      by (simp add: algebra_simps)
    then have "unat (open_connections g) = Suc n mod 2 ^ 32"
      by (simp only: unat_of_nat) simp
    then have "unat (open_connections g) \<le> Suc n"
      by simp
    with Suc.prems show False by simp
  qed
  then show ?case
    by (simp add: ih conn_destroy_open conn_destroy_stopped)
qed

lemma lone_run:
  "lone b evs \<Longrightarrow> \<not> connections_stopped h \<Longrightarrow>
   open_connections h = (if b then 0 else - 1) \<Longrightarrow>
   \<not> snd (g_main_loop_run t h evs)"
proof (induction b evs arbitrary: h rule: lone.induct)
  case (1 b)
  then show ?case by simp
next
  case (2 b es)
  then show ?case
    by (auto simp add: dispatch_def connection_callback_def)
next
  case (3 b es)
  then show ?case
    by (simp add: dispatch_def conn_init_def emit_def)
next
  case (4 b es)
  then show ?case
    by (simp add: dispatch_def conn_destroy_def emit_def Let_def)
next
  case (5 b es)
  then show ?case by simp
next
  case (6 b es)
  then show ?case by simp
qed

text \<open>
  C10 as stated fails: an unmatched close does not disable the idle timeout for good.
  When two connections overlap after it, the first of their closes finds the counter at
  1 and sets \<open>connections_stopped\<close> while one connection is still open; and when
  \<open>connections_stopped\<close> is already true at the unmatched close, the ticks go on counting.
  In both runs the third tick ends the loop.
\<close>

theorem C10_watchdog_fires_after_unmatched_close:
  "main_loop 3 globals_init [Conn_close, Conn_open, Conn_open, Conn_close, Tick, Tick, Tick] =
     (globals_init\<lparr>relaunch_server := True, open_connections := 0, connections_stopped := True,
        counter := 3,
        calls := [Video_renderer_update_background None (- 1),
                  Video_renderer_update_background None 1,
                  Video_renderer_update_background None 1,
                  Video_renderer_update_background None (- 1)]\<rparr>, True) \<and>
   snd (main_loop 3 globals_init [Conn_open, Conn_close, Conn_close, Tick, Tick, Tick])"
  by (simp add: loop_simps globals_init_def)

text \<open>
  C10, amended. \<open>conn_destroy\<close> at \<open>open_connections = 0\<close>: the counter wraps to
  \<open>4294967295\<close>, which is not 0, so this call leaves \<open>connections_stopped\<close> as it was.
  With no \<open>conn_init\<close> in between it stays so for the next \<open>2^32 - 2\<close> closes, and the
  close number \<open>2^32 - 1\<close> sets it. After the wrap a connection opened and closed alone
  leaves \<open>connections_stopped\<close> false, and the close of the first of two overlapping
  connections sets it. If \<open>connections_stopped\<close> was false at the unmatched close, then
  for every timeout the main loop is not ended by any run of ticks and connections
  that do not overlap; after one such connection this holds whatever
  \<open>connections_stopped\<close> was.
\<close>

theorem C10_unmatched_close:
  "open_connections g = 0 \<longrightarrow>
     open_connections (conn_destroy g) = 4294967295 \<and>
     unat (open_connections (conn_destroy g)) = 2 ^ 32 - 1 \<and>
     connections_stopped (conn_destroy g) = connections_stopped g \<and>
     (\<forall>n < 2 ^ 32 - 1.
        connections_stopped ((conn_destroy ^^ n) (conn_destroy g)) = connections_stopped g) \<and>
     connections_stopped ((conn_destroy ^^ (2 ^ 32 - 1)) (conn_destroy g)) \<and>
     \<not> connections_stopped (conn_destroy (conn_init (conn_destroy g))) \<and>
     connections_stopped (conn_destroy (conn_init (conn_init (conn_destroy g)))) \<and>
     (\<not> connections_stopped g \<and> lone False evs \<longrightarrow>
        \<not> snd (main_loop t (conn_destroy g) evs)) \<and>
     (lone False evs \<longrightarrow> \<not> snd (main_loop t (conn_destroy g) (Conn_open # Conn_close # evs)))"
proof
  assume z: "open_connections g = 0"
  have o: "open_connections (conn_destroy g) = 4294967295"
    by (simp add: conn_destroy_open z)
  have u: "unat (open_connections (conn_destroy g)) = 2 ^ 32 - 1"
    by (simp add: o)
  have s: "connections_stopped (conn_destroy g) = connections_stopped g"
    by (simp add: conn_destroy_stopped z)
  have later: "connections_stopped ((conn_destroy ^^ n) (conn_destroy g)) = connections_stopped g"
    if "n < 2 ^ 32 - 1" for n
    using conn_destroy_funpow [of n "conn_destroy g"] that by (simp add: u s)
  have "open_connections ((conn_destroy ^^ (2 ^ 32 - 2)) (conn_destroy g)) = 1"
    using conn_destroy_funpow [of "2 ^ 32 - 2" "conn_destroy g"] by (simp add: u o)
  then have "connections_stopped (conn_destroy ((conn_destroy ^^ (2 ^ 32 - 2)) (conn_destroy g)))"
    by (simp add: conn_destroy_stopped)
  moreover have "(2::nat) ^ 32 - 1 = Suc (2 ^ 32 - 2)"
    by simp
  ultimately have last: "connections_stopped ((conn_destroy ^^ (2 ^ 32 - 1)) (conn_destroy g))"
    by (simp only: funpow.simps o_apply)
  have pair: "\<not> connections_stopped (conn_destroy (conn_init (conn_destroy g)))"
    by (simp add: conn_destroy_stopped conn_init_def emit_def o)
  have two: "connections_stopped (conn_destroy (conn_init (conn_init (conn_destroy g))))"
    by (simp add: conn_destroy_stopped conn_init_def emit_def o)
  have quiet: "\<not> snd (main_loop t (conn_destroy g) evs)"
    if "\<not> connections_stopped g \<and> lone False evs"
    unfolding main_loop_def
    using that by (intro lone_run [of False]) (simp_all add: s o)
  have quiet2: "\<not> snd (main_loop t (conn_destroy g) (Conn_open # Conn_close # evs))"
    if l: "lone False evs"
  proof -
    define h where "h = (conn_destroy g)\<lparr>relaunch_server := True\<rparr>"
    have oh: "open_connections h = 4294967295"
      by (simp add: h_def o)
    have "\<not> snd (g_main_loop_run t (conn_destroy (conn_init h)) evs)"
      using l by (intro lone_run [of False]) (simp_all add: conn_destroy_stopped conn_destroy_open
          conn_init_def emit_def oh)
    then show ?thesis
      by (simp add: main_loop_def dispatch_def h_def)
  qed
  from o u s later last pair two quiet quiet2 show
    "open_connections (conn_destroy g) = 4294967295 \<and>
     unat (open_connections (conn_destroy g)) = 2 ^ 32 - 1 \<and>
     connections_stopped (conn_destroy g) = connections_stopped g \<and>
     (\<forall>n < 2 ^ 32 - 1.
        connections_stopped ((conn_destroy ^^ n) (conn_destroy g)) = connections_stopped g) \<and>
     connections_stopped ((conn_destroy ^^ (2 ^ 32 - 1)) (conn_destroy g)) \<and>
     \<not> connections_stopped (conn_destroy (conn_init (conn_destroy g))) \<and>
     connections_stopped (conn_destroy (conn_init (conn_init (conn_destroy g)))) \<and>
     (\<not> connections_stopped g \<and> lone False evs \<longrightarrow>
        \<not> snd (main_loop t (conn_destroy g) evs)) \<and>
     (lone False evs \<longrightarrow> \<not> snd (main_loop t (conn_destroy g) (Conn_open # Conn_close # evs)))"
    by blast
qed

theorem C10_unmatched_close_witness:
  "open_connections globals_init = 0 \<and> \<not> connections_stopped globals_init \<and>
   lone False [Tick, Conn_open, Tick, Conn_close, Tick, Tick, Tick, Tick] \<and>
   open_connections (conn_destroy globals_init) = 4294967295 \<and>
   \<not> connections_stopped (conn_destroy globals_init) \<and>
   \<not> connections_stopped ((conn_destroy ^^ 5) (conn_destroy globals_init)) \<and>
   connections_stopped ((conn_destroy ^^ (2 ^ 32 - 1)) (conn_destroy globals_init)) \<and>
   \<not> snd (main_loop 3 (conn_destroy globals_init)
            [Tick, Conn_open, Tick, Conn_close, Tick, Tick, Tick, Tick])"
proof -
  have z: "open_connections globals_init = 0" "\<not> connections_stopped globals_init"
    by (simp_all add: globals_init_def)
  have l: "lone False [Tick, Conn_open, Tick, Conn_close, Tick, Tick, Tick, Tick]"
    by simp
  have "(5::nat) < 2 ^ 32 - 1" by simp
  with z l C10_unmatched_close
    [of globals_init "[Tick, Conn_open, Tick, Conn_close, Tick, Tick, Tick, Tick]" 3]
  show ?thesis
    by blast
qed

section \<open>Server life cycle: start and stop\<close>

lemma stop_server_calls:
  "stop_server g = g\<lparr>calls := calls g @
      (case raop g of None \<Rightarrow> [] | Some h \<Rightarrow> [Raop_destroy h]) @
      (case dnssd g of None \<Rightarrow> [] | Some h \<Rightarrow> [Dnssd_unregister_raop h, Dnssd_unregister_airplay h, Dnssd_destroy h]) @
      (case audio_renderer g of None \<Rightarrow> [] | Some h \<Rightarrow> [Audio_renderer_destroy h]) @
      (case video_renderer g of None \<Rightarrow> [] | Some h \<Rightarrow> [Video_renderer_destroy h]) @
      (case render_logger g of None \<Rightarrow> [] | Some h \<Rightarrow> [Logger_destroy h])\<rparr>"
  by (simp add: stop_server_def call_if_def emit_def split: option.splits)

text \<open>
  C6. A second \<open>stop_server\<close> should do nothing. \<open>stop_server\<close> leaves every pointer as
  it is, so a second call repeats every destroy call of the first: it is without effect
  only where all five pointers are null. In \<open>main\<close> this happens when \<open>logger_init\<close> fails
  in a relaunch: \<open>start_server\<close> calls \<open>stop_server\<close>, which destroys again the discovery
  handle and the two renderers that the \<open>stop_server\<close> before the relaunch destroyed.
\<close>

theorem C6_stop_server_twice_destroys_twice:
  "(stop_server (stop_server g) = stop_server g) =
     (raop g = None \<and> dnssd g = None \<and> audio_renderer g = None \<and> video_renderer g = None \<and>
      render_logger g = None) \<and>
   calls (snd (snd (relaunch [] (main_init\<lparr>server_timeout := 1\<rparr>) globals_init
      [(env_ok, [Conn_open, Conn_close, Tick]), (env_no_logger, [])]))) =
     [Raop_init, Raop_set_display 0 0 0 0 0, Raop_set_tcp_ports [0, 0, 0],
      Raop_set_udp_ports [0, 0, 0], Logger_init, Video_renderer_init ''autovideosink'',
      Audio_renderer_init ''autoaudiosink'', Video_renderer_start 3, Audio_renderer_start 4,
      Raop_start 1, Raop_set_port 1 7000, Dnssd_init ''UxPlay'' [], Raop_set_dnssd 1,
      Dnssd_register_raop 7000, Dnssd_register_airplay 7001,
      Video_renderer_update_background (Some 3) 1,
      Video_renderer_update_background (Some 3) (- 1),
      Raop_destroy 1, Dnssd_unregister_raop 5, Dnssd_unregister_airplay 5, Dnssd_destroy 5,
      Audio_renderer_destroy 4, Video_renderer_destroy 3, Logger_destroy 2,
      Raop_init, Raop_set_display 0 0 0 0 0, Raop_set_tcp_ports [0, 0, 0],
      Raop_set_udp_ports [0, 0, 0], Logger_init,
      Raop_destroy 11, Dnssd_unregister_raop 5, Dnssd_unregister_airplay 5, Dnssd_destroy 5,
      Audio_renderer_destroy 4, Video_renderer_destroy 3]"
proof
  show "(stop_server (stop_server g) = stop_server g) =
     (raop g = None \<and> dnssd g = None \<and> audio_renderer g = None \<and> video_renderer g = None \<and>
      render_logger g = None)"
    by (cases g) (auto simp add: stop_server_calls split: option.splits)
next
  show "calls (snd (snd (relaunch [] (main_init\<lparr>server_timeout := 1\<rparr>) globals_init
      [(env_ok, [Conn_open, Conn_close, Tick]), (env_no_logger, [])]))) =
     [Raop_init, Raop_set_display 0 0 0 0 0, Raop_set_tcp_ports [0, 0, 0],
      Raop_set_udp_ports [0, 0, 0], Logger_init, Video_renderer_init ''autovideosink'',
      Audio_renderer_init ''autoaudiosink'', Video_renderer_start 3, Audio_renderer_start 4,
      Raop_start 1, Raop_set_port 1 7000, Dnssd_init ''UxPlay'' [], Raop_set_dnssd 1,
      Dnssd_register_raop 7000, Dnssd_register_airplay 7001,
      Video_renderer_update_background (Some 3) 1,
      Video_renderer_update_background (Some 3) (- 1),
      Raop_destroy 1, Dnssd_unregister_raop 5, Dnssd_unregister_airplay 5, Dnssd_destroy 5,
      Audio_renderer_destroy 4, Video_renderer_destroy 3, Logger_destroy 2,
      Raop_init, Raop_set_display 0 0 0 0 0, Raop_set_tcp_ports [0, 0, 0],
      Raop_set_udp_ports [0, 0, 0], Logger_init,
      Raop_destroy 11, Dnssd_unregister_raop 5, Dnssd_unregister_airplay 5, Dnssd_destroy 5,
      Audio_renderer_destroy 4, Video_renderer_destroy 3]"
    by (simp add: life_simps loop_simps)
qed

lemma start_server_vars:
  "fst (snd (start_server env hw v g)) =
     (if raop_init_r env \<noteq> None \<and> videosink v = ''0''
      then v\<lparr>display := (display v)[3 := 1]\<rparr> else v)"
  by (simp add: start_server_def start_server_tail_def emit_def Let_def split_def)

lemma start_server_ok_raop: "fst (start_server env hw v g) = 0 \<Longrightarrow> raop_init_r env \<noteq> None"
  by (auto simp add: start_server_def emit_def Let_def split: if_splits)

text \<open>
  C7 as stated fails: with the video sink \<open>0\<close>, \<open>start_server\<close> writes 1 to \<open>display[3]\<close>
  of the caller, so the variables after the start differ from those the parser produced.
\<close>

theorem C7_start_server_rewrites_max_fps:
  "parse_args main_init [''-fps'', ''24'', ''-vs'', ''0''] =
     Parsed (main_init\<lparr>display := [0, 0, 0, 24, 0], videosink := ''0''\<rparr>) \<and>
   fst (snd (start_server env_ok [] (main_init\<lparr>display := [0, 0, 0, 24, 0], videosink := ''0''\<rparr>)
      globals_init)) \<noteq> main_init\<lparr>display := [0, 0, 0, 24, 0], videosink := ''0''\<rparr> \<and>
   display (fst (snd (start_server env_ok []
      (main_init\<lparr>display := [0, 0, 0, 24, 0], videosink := ''0''\<rparr>) globals_init))) =
     [0, 0, 0, 1, 0]"
  by (simp add: parse_simps life_simps)

text \<open>
  C7, amended. \<open>start_server\<close> changes no variable of \<open>main\<close> except \<open>display[3]\<close>, which
  it sets to 1 when the video sink is \<open>0\<close> and \<open>raop_init\<close> succeeded. After a start
  that returned 0, any further start leaves the variables as that start left them: every
  later start is passed the same values.
\<close>

theorem C7_start_server_changes_only_max_fps:
  "fst (snd (start_server env hw v g)) =
     (if raop_init_r env \<noteq> None \<and> videosink v = ''0''
      then v\<lparr>display := (display v)[3 := 1]\<rparr> else v) \<and>
   (fst (start_server env hw v g) = 0 \<longrightarrow>
      fst (snd (start_server env2 hw2 (fst (snd (start_server env hw v g))) g2)) =
        fst (snd (start_server env hw v g)))"
proof
  show "fst (snd (start_server env hw v g)) =
     (if raop_init_r env \<noteq> None \<and> videosink v = ''0''
      then v\<lparr>display := (display v)[3 := 1]\<rparr> else v)"
    by (rule start_server_vars)
next
  show "fst (start_server env hw v g) = 0 \<longrightarrow>
      fst (snd (start_server env2 hw2 (fst (snd (start_server env hw v g))) g2)) =
        fst (snd (start_server env hw v g))"
  proof
    assume "fst (start_server env hw v g) = 0"
    then have "raop_init_r env \<noteq> None"
      by (rule start_server_ok_raop)
    then show "fst (snd (start_server env2 hw2 (fst (snd (start_server env hw v g))) g2)) =
        fst (snd (start_server env hw v g))"
      by (simp add: start_server_vars)
  qed
qed

theorem C7_start_server_changes_only_max_fps_witness:
  "fst (start_server env_ok [] (main_init\<lparr>display := [0, 0, 0, 24, 0], videosink := ''0''\<rparr>)
      globals_init) = 0 \<and>
   fst (snd (start_server env_ok [] (main_init\<lparr>display := [0, 0, 0, 24, 0], videosink := ''0''\<rparr>)
      globals_init)) = main_init\<lparr>display := [0, 0, 0, 1, 0], videosink := ''0''\<rparr> \<and>
   fst (snd (start_server env_no_logger [] (main_init\<lparr>display := [0, 0, 0, 1, 0], videosink := ''0''\<rparr>)
      globals_init)) = main_init\<lparr>display := [0, 0, 0, 1, 0], videosink := ''0''\<rparr>"
proof -
  have ok: "fst (start_server env_ok [] (main_init\<lparr>display := [0, 0, 0, 24, 0], videosink := ''0''\<rparr>)
      globals_init) = 0"
    by (simp add: life_simps)
  have v1: "fst (snd (start_server env_ok [] (main_init\<lparr>display := [0, 0, 0, 24, 0], videosink := ''0''\<rparr>)
      globals_init)) = main_init\<lparr>display := [0, 0, 0, 1, 0], videosink := ''0''\<rparr>"
    using C7_start_server_changes_only_max_fps
      [of env_ok "[]" "main_init\<lparr>display := [0, 0, 0, 24, 0], videosink := ''0''\<rparr>" globals_init]
    by (simp add: env_ok_def main_init_def)
  have "fst (snd (start_server env_no_logger []
          (fst (snd (start_server env_ok []
             (main_init\<lparr>display := [0, 0, 0, 24, 0], videosink := ''0''\<rparr>) globals_init)))
          globals_init)) =
        fst (snd (start_server env_ok []
          (main_init\<lparr>display := [0, 0, 0, 24, 0], videosink := ''0''\<rparr>) globals_init))"
    using ok C7_start_server_changes_only_max_fps
      [of env_ok "[]" "main_init\<lparr>display := [0, 0, 0, 24, 0], videosink := ''0''\<rparr>" globals_init
          env_no_logger "[]" globals_init]
    by blast
  then have "fst (snd (start_server env_no_logger []
      (main_init\<lparr>display := [0, 0, 0, 1, 0], videosink := ''0''\<rparr>) globals_init)) =
      main_init\<lparr>display := [0, 0, 0, 1, 0], videosink := ''0''\<rparr>"
    unfolding v1 .
  with ok v1 show ?thesis by blast
qed

section \<open>Hardware address: synthesis and round trip\<close>

lemma nat_less_16_cases:
  "(k::nat) < 16 \<Longrightarrow> k = 0 \<or> k = 1 \<or> k = 2 \<or> k = 3 \<or> k = 4 \<or> k = 5 \<or> k = 6 \<or> k = 7 \<or>
     k = 8 \<or> k = 9 \<or> k = 10 \<or> k = 11 \<or> k = 12 \<or> k = 13 \<or> k = 14 \<or> k = 15"
  by arith

lemma hex_digit_xdigit:
  assumes "k < 16"
  shows "isxdigit (hex_digit k) \<and> xdigit_val (hex_digit k) = k"
  using nat_less_16_cases [OF assms]
  by (elim disjE) (simp_all add: hex_digit_def isxdigit_def xdigit_val_def isdigit_def)

lemma hex_str_small: "n < 16 \<Longrightarrow> hex_str n = [hex_digit n]"
  by (simp add: hex_str.simps)

lemma hex_str_byte: "16 \<le> n \<Longrightarrow> n < 256 \<Longrightarrow> hex_str n = [hex_digit (n div 16), hex_digit (n mod 16)]"
  by (subst hex_str.simps) (simp add: hex_str_small)

lemma hex_digit_0: "hex_digit 0 = CHR ''0''"
  by (simp add: hex_digit_def)

lemma snprintf_02x_byte:
  "n < 256 \<Longrightarrow> snprintf_02x n = [hex_digit (n div 16), hex_digit (n mod 16)]"
  by (cases "n < 16") (simp_all add: snprintf_02x_def hex_str_small hex_str_byte hex_digit_0)

lemma isxdigit_not_space: "isxdigit c \<Longrightarrow> \<not> isspace c"
  by (auto simp add: isxdigit_def isspace_def isdigit_def)

lemma isxdigit_not_special:
  "isxdigit c \<Longrightarrow> c \<noteq> CHR ''-'' \<and> c \<noteq> CHR ''+'' \<and> c \<noteq> CHR ''x'' \<and> c \<noteq> CHR ''X'' \<and> c \<noteq> CHR '':''"
  by (auto simp add: isxdigit_def isdigit_def)

lemma xdigit_val_less: "isxdigit c \<Longrightarrow> xdigit_val c < 16"
  by (auto simp add: isxdigit_def isdigit_def xdigit_val_def)

lemma stol16_group:
  assumes a: "isxdigit a" and b: "isxdigit b" and r: "rest = [] \<or> hd rest = CHR '':''"
  shows "stol16 (a # b # rest) = Some (int (16 * xdigit_val a + xdigit_val b))"
proof -
  have acc: "acc_xdigits 0 (a # b # rest) = 16 * xdigit_val a + xdigit_val b"
    using a b r by (cases rest) (auto simp add: isxdigit_def isdigit_def)
  have bound: "16 * xdigit_val a + xdigit_val b < 256"
    using xdigit_val_less [OF a] xdigit_val_less [OF b] by simp
  show ?thesis
    using a b isxdigit_not_space [OF a] isxdigit_not_special [OF a] isxdigit_not_special [OF b]
      bound
    by (simp add: stol16_def char0_def Let_def acc del: acc_xdigits.simps)
qed


lemma parse_hw_addr_loop_groups:
  "\<forall>g \<in> set gs. isxdigit (fst g) \<and> isxdigit (snd g) \<Longrightarrow>
   parse_hw_addr_loop (pre @ groups_text gs) (length pre) hw = Some (hw @ map group_byte gs)"
proof (induction gs arbitrary: pre hw rule: groups_text.induct)
  case 1
  show ?case by (simp add: parse_hw_addr_loop.simps)
next
  case (2 a b)
  then have s: "stol16 [a, b] = Some (int (16 * xdigit_val a + xdigit_val b))"
    by (simp add: stol16_group)
  show ?case
    by (subst parse_hw_addr_loop.simps, simp add: s group_byte_def)
       (subst parse_hw_addr_loop.simps, simp)
next
  case (3 a b g gs)
  then have s: "stol16 (a # b # CHR '':'' # groups_text (g # gs)) =
      Some (int (16 * xdigit_val a + xdigit_val b))"
    by (simp add: stol16_group)
  have ih: "parse_hw_addr_loop ((pre @ [a, b, CHR '':'']) @ groups_text (g # gs))
      (length (pre @ [a, b, CHR '':''])) (hw @ [group_byte (a, b)]) =
      Some ((hw @ [group_byte (a, b)]) @ map group_byte (g # gs))"
    using "3.prems" by (intro "3.IH") simp
  show ?case
    using ih
    by (subst parse_hw_addr_loop.simps) (simp add: s group_byte_def numeral_3_eq_3)
qed

lemma unat_u8_less: "unat (b :: u8) < 256"
proof -
  have "unat b < 2 ^ LENGTH(8)"
    by (rule unsigned_less)
  then show ?thesis by simp
qed

lemma mac_text_groups: "mac_text bs = groups_text (map hex_group bs)"
  by (induction bs rule: mac_text.induct)
     (simp_all add: hex_group_def snprintf_02x_byte unat_u8_less)

lemma group_byte_hex_group: "group_byte (hex_group b) = b"
proof -
  have "unat b div 16 < 16" "unat b mod 16 < 16"
    using unat_u8_less [of b] by simp_all
  then show ?thesis
    by (simp add: group_byte_def hex_group_def hex_digit_xdigit)
qed

lemma hex_group_xdigit: "isxdigit (fst (hex_group b)) \<and> isxdigit (snd (hex_group b))"
proof -
  have "unat b div 16 < 16" "unat b mod 16 < 16"
    using unat_u8_less [of b] by simp_all
  then show ?thesis
    by (simp add: hex_group_def hex_digit_xdigit)
qed

lemma parse_hw_addr_mac_text: "parse_hw_addr (mac_text bs) [] = Some bs"
proof -
  have "parse_hw_addr_loop ([] @ groups_text (map hex_group bs)) (length ([] :: string)) [] =
      Some ([] @ map group_byte (map hex_group bs))"
    by (rule parse_hw_addr_loop_groups) (simp add: hex_group_xdigit)
  then show ?thesis
    by (simp add: parse_hw_addr_def mac_text_groups group_byte_hex_group o_def)
qed

lemma random_mac_text:
  "random_mac rnd =
     mac_text [of_nat (4 * (rnd 0 mod 64) + 2), of_nat (rnd 1 mod 256), of_nat (rnd 2 mod 256),
       of_nat (rnd 3 mod 256), of_nat (rnd 4 mod 256), of_nat (rnd 5 mod 256)]"
proof -
  define k where "k = 4 * (rnd 0 mod 64) + 2"
  have u: "unat (of_nat (n mod 256) :: u8) = n mod 256" for n
    by (simp only: unat_of_nat) simp
  have "rnd 0 mod 64 < 64"
    by simp
  then have "k < 256"
    unfolding k_def by linarith
  then have u0: "unat (of_nat k :: u8) = k"
    by (simp only: unat_of_nat) simp
  have l6: "random_mac_loop rnd 6 m = m" for m
    by (simp add: random_mac_loop.simps OCTETS_def)
  have l5: "random_mac_loop rnd 5 m = m @ '':'' @ snprintf_02x (rnd 5 mod 256)" for m
    by (subst random_mac_loop.simps) (simp add: OCTETS_def l6)
  have l4: "random_mac_loop rnd 4 m =
      m @ '':'' @ snprintf_02x (rnd 4 mod 256) @ '':'' @ snprintf_02x (rnd 5 mod 256)" for m
    by (subst random_mac_loop.simps) (simp add: OCTETS_def l5)
  have l3: "random_mac_loop rnd 3 m =
      m @ '':'' @ snprintf_02x (rnd 3 mod 256) @ '':'' @ snprintf_02x (rnd 4 mod 256) @ '':'' @
      snprintf_02x (rnd 5 mod 256)" for m
    by (subst random_mac_loop.simps) (simp add: OCTETS_def l4)
  have l2: "random_mac_loop rnd 2 m =
      m @ '':'' @ snprintf_02x (rnd 2 mod 256) @ '':'' @ snprintf_02x (rnd 3 mod 256) @ '':'' @
      snprintf_02x (rnd 4 mod 256) @ '':'' @ snprintf_02x (rnd 5 mod 256)" for m
    by (subst random_mac_loop.simps) (simp add: OCTETS_def l3)
  have loop: "random_mac_loop rnd 1 m =
      m @ '':'' @ snprintf_02x (rnd 1 mod 256) @ '':'' @ snprintf_02x (rnd 2 mod 256) @ '':'' @
      snprintf_02x (rnd 3 mod 256) @ '':'' @ snprintf_02x (rnd 4 mod 256) @ '':'' @
      snprintf_02x (rnd 5 mod 256)" for m
    by (subst random_mac_loop.simps) (simp add: OCTETS_def l2 numeral_2_eq_2 [symmetric])
  have first: "push_bit 1 (push_bit 1 (rnd 0 mod 64) + LOCAL) + MULTICAST = k"
    by (simp add: k_def LOCAL_def MULTICAST_def push_bit_eq_mult)
  have "random_mac rnd = random_mac_loop rnd 1 (snprintf_02x k)"
    by (simp only: random_mac_def Let_def first)
  also have "\<dots> = mac_text [of_nat k, of_nat (rnd 1 mod 256), of_nat (rnd 2 mod 256),
       of_nat (rnd 3 mod 256), of_nat (rnd 4 mod 256), of_nat (rnd 5 mod 256)]"
    by (simp only: loop mac_text.simps u u0)
  finally show ?thesis
    unfolding k_def .
qed

lemma first_octet_bits:
  "\<not> bit (of_nat (4 * m + 2) :: u8) 0 \<and> bit (of_nat (4 * m + 2) :: u8) 1"
proof -
  have "(4 * m + 2) div 2 = 2 * m + 1"
    by simp
  then have "\<not> bit (4 * m + 2) 0 \<and> bit (4 * m + 2) 1"
    by (simp add: bit_iff_odd)
  then show ?thesis
    by (simp only: bit_of_nat_iff) simp
qed

text \<open>
  C9. For every sequence of results of \<open>rand()\<close>, \<open>random_mac\<close> writes six groups of two
  hexadecimal digits whose first byte has bit 0 clear (unicast) and bit 1 set (locally
  administered). \<open>parse_hw_addr\<close> applied to the text of any six bytes returns these six
  bytes, and applied to any six groups of two hexadecimal digits (either case) it
  returns the six bytes the groups denote.
\<close>

theorem C9_random_mac_bits_and_round_trip:
  "(\<exists>b0 b1 b2 b3 b4 b5.
      random_mac rnd = mac_text [b0, b1, b2, b3, b4, b5] \<and>
      parse_hw_addr (random_mac rnd) [] = Some [b0, b1, b2, b3, b4, b5] \<and>
      \<not> bit b0 0 \<and> bit b0 1) \<and>
   (length bs = 6 \<longrightarrow> parse_hw_addr (mac_text bs) [] = Some bs) \<and>
   (length gs = 6 \<and> (\<forall>g \<in> set gs. isxdigit (fst g) \<and> isxdigit (snd g)) \<longrightarrow>
      parse_hw_addr (groups_text gs) [] = Some (map group_byte gs))"
proof (intro conjI impI)
  show "\<exists>b0 b1 b2 b3 b4 b5.
      random_mac rnd = mac_text [b0, b1, b2, b3, b4, b5] \<and>
      parse_hw_addr (random_mac rnd) [] = Some [b0, b1, b2, b3, b4, b5] \<and>
      \<not> bit b0 0 \<and> bit b0 1"
    using random_mac_text [of rnd] first_octet_bits [of "rnd 0 mod 64"]
      parse_hw_addr_mac_text
    by metis
next
  show "parse_hw_addr (mac_text bs) [] = Some bs"
    by (rule parse_hw_addr_mac_text)
next
  assume "length gs = 6 \<and> (\<forall>g \<in> set gs. isxdigit (fst g) \<and> isxdigit (snd g))"
  then have "parse_hw_addr_loop ([] @ groups_text gs) (length ([] :: string)) [] =
      Some ([] @ map group_byte gs)"
    by (intro parse_hw_addr_loop_groups) simp
  then show "parse_hw_addr (groups_text gs) [] = Some (map group_byte gs)"
    by (simp add: parse_hw_addr_def)
qed

lemma c9_text: "mac_text [0x02, 0x1b, 0xff, 0x00, 0x7e, 0xa5] = ''02:1b:ff:00:7e:a5''"
  by (simp add: snprintf_02x_byte hex_digit_def)

theorem C9_random_mac_bits_and_round_trip_witness:
  "length [0x02, 0x1b, 0xff, 0x00, 0x7e, 0xa5 :: u8] = 6 \<and>
   parse_hw_addr ''02:1b:ff:00:7e:a5'' [] = Some [0x02, 0x1b, 0xff, 0x00, 0x7e, 0xa5] \<and>
   parse_hw_addr ''02:1B:FF:00:7E:A5'' [] = Some [0x02, 0x1b, 0xff, 0x00, 0x7e, 0xa5]"
proof -
  have x: "\<forall>g \<in> set [(CHR ''0'', CHR ''2''), (CHR ''1'', CHR ''B''), (CHR ''F'', CHR ''F''),
      (CHR ''0'', CHR ''0''), (CHR ''7'', CHR ''E''), (CHR ''A'', CHR ''5'')].
      isxdigit (fst g) \<and> isxdigit (snd g)"
    by (simp add: isxdigit_def isdigit_def)
  have b: "map group_byte [(CHR ''0'', CHR ''2''), (CHR ''1'', CHR ''B''), (CHR ''F'', CHR ''F''),
      (CHR ''0'', CHR ''0''), (CHR ''7'', CHR ''E''), (CHR ''A'', CHR ''5'')] =
      [0x02, 0x1b, 0xff, 0x00, 0x7e, 0xa5]"
    by (simp add: group_byte_def xdigit_val_def isdigit_def)
  from C9_random_mac_bits_and_round_trip
    [of "\<lambda>n. 0" "[0x02, 0x1b, 0xff, 0x00, 0x7e, 0xa5]"
      "[(CHR ''0'', CHR ''2''), (CHR ''1'', CHR ''B''), (CHR ''F'', CHR ''F''),
        (CHR ''0'', CHR ''0''), (CHR ''7'', CHR ''E''), (CHR ''A'', CHR ''5'')]"]
    x b c9_text
  show ?thesis
    by simp
qed

section \<open>Decimal texts and \<open>strtoul\<close>\<close>

lemma acc_digits_snd: "snd (acc_digits a u) = dropWhile isdigit u"
  by (induction u arbitrary: a) simp_all

lemma acc_digits_all: "list_all isdigit t \<Longrightarrow> acc_digits a t = (foldl (\<lambda>a c. 10 * a + digit_val c) a t, [])"
  by (induction t arbitrary: a) simp_all

lemma foldl_dec_bound:
  "list_all isdigit t \<Longrightarrow> foldl (\<lambda>a c. 10 * a + digit_val c) a t < (a + 1) * 10 ^ length t"
proof (induction t arbitrary: a)
  case Nil
  then show ?case by simp
next
  case (Cons c t)
  from Cons.prems have "(of_char c :: nat) \<le> 57"
    by (simp add: isdigit_def)
  then have "digit_val c \<le> 9"
    unfolding digit_val_def by arith
  then have "10 * a + digit_val c + 1 \<le> (a + 1) * 10"
    by simp
  then have le: "(10 * a + digit_val c + 1) * 10 ^ length t \<le> (a + 1) * 10 * 10 ^ length t"
    by (rule mult_le_mono1)
  have "foldl (\<lambda>a c. 10 * a + digit_val c) (10 * a + digit_val c) t
      < (10 * a + digit_val c + 1) * 10 ^ length t"
    using Cons by simp
  also note le
  also have "(a + 1) * 10 * 10 ^ length t = (a + 1) * 10 ^ length (c # t)"
    by (simp add: algebra_simps)
  finally show ?case
    by simp
qed

lemma dec_bound: "list_all isdigit t \<Longrightarrow> dec t < 10 ^ length t"
  using foldl_dec_bound [of t 0] by (simp add: dec_def)

lemma isdigit_plain: "isdigit c \<Longrightarrow> \<not> isspace c \<and> c \<noteq> CHR ''-'' \<and> c \<noteq> CHR ''+''"
  by (auto simp add: isdigit_def isspace_def)

lemma strtoul_digits:
  assumes d: "digits t" and l: "length t \<le> 10"
  shows "strtoul t = (dec t, [])"
proof -
  from d obtain c cs where t: "t = c # cs" and c: "isdigit c" and all: "list_all isdigit t"
    by (cases t) (auto simp add: digits_def)
  have "dec t < 10 ^ length t"
    by (rule dec_bound [OF all])
  also have "(10::nat) ^ length t \<le> 10 ^ 10"
    using l by (intro power_increasing) simp_all
  finally have b: "dec t \<le> ULONG_MAX"
    by (simp add: ULONG_MAX_def)
  have a: "acc_digits 0 (c # cs) = (dec t, [])"
    using acc_digits_all [OF all, of 0] by (simp add: dec_def t)
  show ?thesis
    using isdigit_plain [OF c] c b
    by (simp add: strtoul_def t [symmetric] Let_def)
       (simp add: t char0_def a [unfolded t] del: acc_digits.simps)
qed

lemma strtoul_stray:
  assumes "stray t"
  shows "snd (strtoul t) \<noteq> []"
proof -
  from assms obtain c where c: "c \<in> set t" "\<not> isdigit c" "\<not> isspace c" "c \<noteq> CHR ''+''" "c \<noteq> CHR ''-''"
    by (auto simp add: stray_def)
  define t' where "t' = dropWhile isspace t"
  define u where "u = (if char0 t' = CHR ''-'' \<or> char0 t' = CHR ''+'' then tl t' else t')"
  have "c \<in> set (takeWhile isspace t) \<union> set t'"
    using c(1) unfolding t'_def by (metis set_append takeWhile_dropWhile_id)
  moreover have "c \<notin> set (takeWhile isspace t)"
    using c(3) by (auto dest: set_takeWhileD)
  ultimately have ct': "c \<in> set t'"
    by simp
  have cu: "c \<in> set u"
    using ct' c(4,5) unfolding u_def by (cases t') (auto simp add: char0_def)
  have "dropWhile isdigit u \<noteq> []"
    using cu c(2) by (auto simp add: dropWhile_eq_Nil_conv)
  moreover have "t \<noteq> []"
    using c(1) by auto
  ultimately show ?thesis
    by (simp add: strtoul_def Let_def split_def acc_digits_snd t'_def [symmetric] u_def [symmetric])
qed

section \<open>Port lists\<close>

lemma split_commas_not_Nil: "split_commas s \<noteq> []"
  by (induction s) (auto split: list.splits)

lemma split_commas_plain: "CHR '','' \<notin> set s \<Longrightarrow> split_commas s = [s]"
  by (induction s) auto

lemma split_commas_append:
  "CHR '','' \<notin> set a \<Longrightarrow> split_commas (a @ CHR '','' # r) = a # split_commas r"
  by (induction a) auto

lemma comma_decompose:
  assumes "CHR '','' \<in> set s"
  shows "s = takeWhile (\<lambda>c. c \<noteq> CHR '','') s @ CHR '','' #
             drop (Suc (length (takeWhile (\<lambda>c. c \<noteq> CHR '','') s))) s"
proof -
  have "dropWhile (\<lambda>c. c \<noteq> CHR '','') s \<noteq> []"
    using assms by (auto simp add: dropWhile_eq_Nil_conv)
  moreover have "hd (dropWhile (\<lambda>c. c \<noteq> CHR '','') s) = CHR '','' "
    using assms hd_dropWhile [of "\<lambda>c. c \<noteq> CHR '',''" s] calculation by auto
  ultimately have "dropWhile (\<lambda>c. c \<noteq> CHR '','') s =
      CHR '','' # tl (dropWhile (\<lambda>c. c \<noteq> CHR '','') s)"
    by (cases "dropWhile (\<lambda>c. c \<noteq> CHR '','') s") auto
  moreover have "tl (dropWhile (\<lambda>c. c \<noteq> CHR '','') s) =
      drop (Suc (length (takeWhile (\<lambda>c. c \<noteq> CHR '','') s))) s"
    by (simp add: dropWhile_eq_drop drop_Suc tl_drop)
  ultimately show ?thesis
    by (metis takeWhile_dropWhile_id)
qed

lemma split_commas_first:
  assumes "CHR '','' \<in> set s"
  shows "split_commas s = takeWhile (\<lambda>c. c \<noteq> CHR '','') s #
           split_commas (drop (Suc (length (takeWhile (\<lambda>c. c \<noteq> CHR '','') s))) s)"
proof -
  have "CHR '','' \<notin> set (takeWhile (\<lambda>c. c \<noteq> CHR '','') s)"
    by (auto dest: set_takeWhileD)
  then show ?thesis
    using split_commas_append comma_decompose [OF assms] by metis
qed

lemma get_ports_loop_step:
  "get_ports_loop n i s p =
     (if n \<le> i then (False, p)
      else if \<not> port_token (hd (split_commas s)) then (False, p)
      else if CHR '','' \<in> set s
        then get_ports_loop n (i + 1) (drop (Suc (length (hd (split_commas s)))) s)
               (p[i := of_nat (fst (strtoul (hd (split_commas s))))])
        else if n + unat (p[i := (of_nat (fst (strtoul s)) :: u16)] ! i) > i + 1 + HIGHEST_PORT
          then (False, p[i := of_nat (fst (strtoul s))])
          else (True, fill_ports (p[i := of_nat (fst (strtoul s))]) (i + 1) n))"
proof (cases "CHR '','' \<in> set s")
  case True
  then show ?thesis
    by (subst get_ports_loop.simps)
       (auto simp add: split_commas_first find_first_of_def port_token_def Let_def split_def
          takeWhile_eq_take [symmetric])
next
  case False
  then show ?thesis
    by (subst get_ports_loop.simps)
       (auto simp add: split_commas_plain find_first_of_def port_token_def Let_def split_def)
qed


lemma port_token_digits:
  assumes "digits t" "length t \<le> 5"
  shows "port_token t = (1024 \<le> dec t \<and> dec t \<le> 65535)"
proof -
  from assms have s: "strtoul t = (dec t, [])"
    by (intro strtoul_digits) simp_all
  from assms(1) obtain c cs where "t = c # cs" "isdigit c"
    by (cases t) (auto simp add: digits_def)
  then have "char0 t \<noteq> CHR ''-''" "t \<noteq> []"
    using isdigit_plain [of c] by (simp_all add: char0_def)
  then show ?thesis
    using assms(2) by (simp add: port_token_def s LOWEST_ALLOWED_PORT_def HIGHEST_PORT_def)
qed

lemma port_token_not_stray: "port_token t \<Longrightarrow> \<not> stray t"
  using strtoul_stray [of t] by (auto simp add: port_token_def)

lemma port_token_no_comma: "port_token t \<Longrightarrow> CHR '','' \<notin> set t"
proof
  assume t: "port_token t" and c: "CHR '','' \<in> set t"
  have "stray t"
    unfolding stray_def using c by (intro bexI [of _ "CHR '',''"]) (simp_all add: isdigit_def isspace_def)
  with port_token_not_stray [OF t] show False
    by simp
qed

lemma get_ports_loop_accepts:
  "length p = n \<Longrightarrow> i \<le> n \<Longrightarrow>
   fst (get_ports_loop n i s p) =
     (length (split_commas s) \<le> n - i \<and> list_all port_token (split_commas s) \<and>
      fst (strtoul (last (split_commas s))) + (n - i - length (split_commas s)) \<le> HIGHEST_PORT)"
proof (induction "n - i" arbitrary: i s p)
  case 0
  then have "n \<le> i"
    by simp
  then show ?case
    using split_commas_not_Nil [of s]
    by (subst get_ports_loop_step) (simp add: Suc_le_eq)
next
  case (Suc k)
  then have lt: "i < n"
    by simp
  show ?case
  proof (cases "CHR '','' \<in> set s")
    case True
    define a where "a = takeWhile (\<lambda>c. c \<noteq> CHR '','') s"
    define r where "r = drop (Suc (length a)) s"
    define rs where "rs = split_commas r"
    have sp: "split_commas s = a # rs"
      unfolding a_def r_def rs_def by (rule split_commas_first [OF True])
    have rs: "rs \<noteq> []"
      unfolding rs_def by (rule split_commas_not_Nil)
    have ih: "fst (get_ports_loop n (Suc i) r (p[i := of_nat (fst (strtoul a))])) =
        (length rs \<le> n - Suc i \<and> list_all port_token rs \<and>
         fst (strtoul (last rs)) + (n - Suc i - length rs) \<le> HIGHEST_PORT)"
      unfolding rs_def using Suc.prems Suc.hyps(2) lt by (intro Suc.hyps(1)) simp_all
    have step: "get_ports_loop n i s p =
        (if \<not> port_token a then (False, p)
         else get_ports_loop n (Suc i) r (p[i := of_nat (fst (strtoul a))]))"
      using lt True by (subst get_ports_loop_step) (simp add: sp r_def)
    have ar: "n - Suc i - length rs = n - i - Suc (length rs)"
      by simp
    have le: "(length rs \<le> n - Suc i) = (Suc (length rs) \<le> n - i)"
      using lt by auto
    show ?thesis
      using rs by (cases "port_token a") (simp_all add: step sp ih ar le)
  next
    case False
    have u: "unat (of_nat (fst (strtoul s)) :: u16) = fst (strtoul s)" if "port_token s"
      using that by (simp add: port_token_def HIGHEST_PORT_def unat_of_nat)
    show ?thesis
      using lt False Suc.prems
      by (subst get_ports_loop_step)
         (auto simp add: split_commas_plain u HIGHEST_PORT_def)
  qed
qed


lemma fill_ports_from_1: "fill_ports [x, y, z] (Suc 0) 3 = [x, x + 1, x + 1 + 1]"
  by (simp add: fill_ports.simps)

lemma fill_ports_from_2: "fill_ports [x, y, z] (Suc (Suc 0)) 3 = [x, y, y + 1]"
  by (simp add: fill_ports.simps)

lemma fill_ports_from_3: "fill_ports q (Suc (Suc (Suc 0))) 3 = q"
  by (simp add: fill_ports.simps)

lemma port_token_unat:
  "port_token t \<Longrightarrow> unat (of_nat (fst (strtoul t)) :: u16) = fst (strtoul t)"
  by (simp add: port_token_def HIGHEST_PORT_def unat_of_nat)

lemma get_ports_one:
  assumes p: "length p = 3" and a: "port_token a"
  shows "get_ports 3 a p =
     (if fst (strtoul a) + 2 \<le> HIGHEST_PORT
      then (True, [of_nat (fst (strtoul a)), of_nat (fst (strtoul a) + 1), of_nat (fst (strtoul a) + 2)])
      else (False, [of_nat (fst (strtoul a)), p ! 1, p ! 2]))"
proof -
  from p obtain x y z where p3: "p = [x, y, z]"
    by (auto simp add: length_Suc_conv numeral_3_eq_3)
  have nc: "CHR '','' \<notin> set a"
    by (rule port_token_no_comma [OF a])
  show ?thesis
    unfolding get_ports_def
    by (subst get_ports_loop_step)
       (simp add: split_commas_plain [OF nc] nc a p3 port_token_unat [OF a] fill_ports_from_1
          HIGHEST_PORT_def)
qed

lemma get_ports_two:
  assumes p: "length p = 3" and a: "port_token a" and b: "port_token b"
  shows "get_ports 3 (a @ CHR '','' # b) p =
     (if fst (strtoul b) + 1 \<le> HIGHEST_PORT
      then (True, [of_nat (fst (strtoul a)), of_nat (fst (strtoul b)), of_nat (fst (strtoul b) + 1)])
      else (False, [of_nat (fst (strtoul a)), of_nat (fst (strtoul b)), p ! 2]))"
proof -
  from p obtain x y z where p3: "p = [x, y, z]"
    by (auto simp add: length_Suc_conv numeral_3_eq_3)
  have na: "CHR '','' \<notin> set a" and nb: "CHR '','' \<notin> set b"
    by (rule port_token_no_comma [OF a], rule port_token_no_comma [OF b])
  have s1: "get_ports_loop 3 0 (a @ CHR '','' # b) [x, y, z] =
      get_ports_loop 3 (Suc 0) b [of_nat (fst (strtoul a)), y, z]"
    by (subst get_ports_loop_step) (simp add: split_commas_append [OF na] a)
  have s2: "get_ports_loop 3 (Suc 0) b [of_nat (fst (strtoul a)), y, z] =
     (if fst (strtoul b) + 1 \<le> HIGHEST_PORT
      then (True, [of_nat (fst (strtoul a)), of_nat (fst (strtoul b)), of_nat (fst (strtoul b) + 1)])
      else (False, [of_nat (fst (strtoul a)), of_nat (fst (strtoul b)), z]))"
    by (subst get_ports_loop_step)
       (simp add: split_commas_plain [OF nb] nb b port_token_unat [OF b] fill_ports_from_2
          HIGHEST_PORT_def)
  show ?thesis
    by (simp add: get_ports_def s1 s2 p3)
qed

lemma get_ports_three:
  assumes p: "length p = 3" and a: "port_token a" and b: "port_token b" and c: "port_token c"
  shows "get_ports 3 (a @ CHR '','' # b @ CHR '','' # c) p =
     (True, [of_nat (fst (strtoul a)), of_nat (fst (strtoul b)), of_nat (fst (strtoul c))])"
proof -
  from p obtain x y z where p3: "p = [x, y, z]"
    by (auto simp add: length_Suc_conv numeral_3_eq_3)
  have na: "CHR '','' \<notin> set a" and nb: "CHR '','' \<notin> set b" and nc: "CHR '','' \<notin> set c"
    by (rule port_token_no_comma [OF a], rule port_token_no_comma [OF b],
        rule port_token_no_comma [OF c])
  have s1: "get_ports_loop 3 0 (a @ CHR '','' # b @ CHR '','' # c) [x, y, z] =
      get_ports_loop 3 (Suc 0) (b @ CHR '','' # c) [of_nat (fst (strtoul a)), y, z]"
    by (subst get_ports_loop_step) (simp add: split_commas_append [OF na] a)
  have s2: "get_ports_loop 3 (Suc 0) (b @ CHR '','' # c) [of_nat (fst (strtoul a)), y, z] =
      get_ports_loop 3 (Suc (Suc 0)) c [of_nat (fst (strtoul a)), of_nat (fst (strtoul b)), z]"
    by (subst get_ports_loop_step) (simp add: split_commas_append [OF nb] b)
  have hc: "fst (strtoul c) \<le> 65535"
    using c by (simp add: port_token_def HIGHEST_PORT_def)
  have s3: "get_ports_loop 3 (Suc (Suc 0)) c [of_nat (fst (strtoul a)), of_nat (fst (strtoul b)), z] =
      (True, [of_nat (fst (strtoul a)), of_nat (fst (strtoul b)), of_nat (fst (strtoul c))])"
    using hc
    by (subst get_ports_loop_step)
       (simp add: split_commas_plain [OF nc] nc c port_token_unat [OF c] fill_ports_from_3
          HIGHEST_PORT_def)
  show ?thesis
    by (simp add: get_ports_def s1 s2 s3 p3)
qed

lemma port_token_malformed:
  "t = [] \<or> length t > 5 \<or> char0 t = CHR ''-'' \<or> stray t \<Longrightarrow> \<not> port_token t"
  using port_token_not_stray [of t] by (auto simp add: port_token_def)

lemma bare_p_legacy:
  "rest = [] \<or> char0 (hd rest) = CHR ''-'' \<Longrightarrow>
   parse_option v ''-p'' rest =
     Inr (v\<lparr>tcp := [7100, 7000, 7001], udp := [7011, 6001, 6000]\<rparr>, 0)"
  by (simp add: parse_option_def)

text \<open>
  C3 as stated fails: a token with a leading \<open>+\<close> or a leading blank is accepted, since
  \<open>get_ports\<close> rejects only a first character \<open>-\<close> and \<open>strtoul\<close> reads both.
\<close>

theorem C3_get_ports_accepts_plus_sign:
  "get_ports 3 ''+7000'' [0, 0, 0] = (True, [7000, 7001, 7002]) \<and>
   get_ports 3 '' 7000'' [0, 0, 0] = (True, [7000, 7001, 7002])"
  by (simp add: parse_simps)

text \<open>
  C3, amended. For a port array of three cells, \<open>get_ports\<close> returns true exactly when the
  text has at most three comma-separated tokens, each token passes \<open>port_token\<close> (1 to 5
  characters, not beginning with \<open>-\<close>, read to its end by \<open>strtoul\<close> as a value in
  \<open>[1024, 65535]\<close>), and the last value plus the number of missing tokens does not exceed
  65535. A token of 1 to 5 digits passes exactly when its value is in \<open>[1024, 65535]\<close>; an
  empty or longer token, one beginning with \<open>-\<close>, or one with a stray character fails.
  Three tokens of digits yield their three values; two yield the two values and the second
  plus 1; one yields the value, the value plus 1 and plus 2. \<open>7000,7001,7002\<close>, \<open>7000\<close> and
  \<open>7000,7001\<close> all yield \<open>{7000, 7001, 7002}\<close>; \<open>65534\<close> and the empty text fail. A bare
  \<open>-p\<close> (no next argument, or one beginning with \<open>-\<close>) sets the legacy ports
  \<open>tcp = {7100, 7000, 7001}\<close>, \<open>udp = {7011, 6001, 6000}\<close>.
\<close>

theorem C3_get_ports_tokens:
  "(length p = 3 \<longrightarrow>
      fst (get_ports 3 s p) =
        (length (split_commas s) \<le> 3 \<and> list_all port_token (split_commas s) \<and>
         fst (strtoul (last (split_commas s))) + (3 - length (split_commas s)) \<le> HIGHEST_PORT)) \<and>
   (digits t \<and> length t \<le> 5 \<longrightarrow> port_token t = (1024 \<le> dec t \<and> dec t \<le> 65535)) \<and>
   (t = [] \<or> length t > 5 \<or> char0 t = CHR ''-'' \<or> stray t \<longrightarrow> \<not> port_token t) \<and>
   (length p = 3 \<and> digits a \<and> digits b \<and> digits c \<and>
    port_token a \<and> port_token b \<and> port_token c \<longrightarrow>
      get_ports 3 (a @ '','' @ b @ '','' @ c) p =
        (True, [of_nat (dec a), of_nat (dec b), of_nat (dec c)]) \<and>
      fst (get_ports 3 (a @ '','' @ b) p) = (dec b + 1 \<le> 65535) \<and>
      (dec b + 1 \<le> 65535 \<longrightarrow>
         get_ports 3 (a @ '','' @ b) p =
           (True, [of_nat (dec a), of_nat (dec b), of_nat (dec b + 1)])) \<and>
      fst (get_ports 3 a p) = (dec a + 2 \<le> 65535) \<and>
      (dec a + 2 \<le> 65535 \<longrightarrow>
         get_ports 3 a p = (True, [of_nat (dec a), of_nat (dec a + 1), of_nat (dec a + 2)]))) \<and>
   get_ports 3 ''7000,7001,7002'' [0, 0, 0] = (True, [7000, 7001, 7002]) \<and>
   get_ports 3 ''7000'' [0, 0, 0] = (True, [7000, 7001, 7002]) \<and>
   get_ports 3 ''7000,7001'' [0, 0, 0] = (True, [7000, 7001, 7002]) \<and>
   \<not> fst (get_ports 3 ''65534'' [0, 0, 0]) \<and>
   \<not> fst (get_ports 3 [] p) \<and>
   (rest = [] \<or> char0 (hd rest) = CHR ''-'' \<longrightarrow>
      parse_option v ''-p'' rest =
        Inr (v\<lparr>tcp := [7100, 7000, 7001], udp := [7011, 6001, 6000]\<rparr>, 0))"
proof -
  have c1: "length p = 3 \<longrightarrow>
      fst (get_ports 3 s p) =
        (length (split_commas s) \<le> 3 \<and> list_all port_token (split_commas s) \<and>
         fst (strtoul (last (split_commas s))) + (3 - length (split_commas s)) \<le> HIGHEST_PORT)"
    using get_ports_loop_accepts [of p 3 0 s] by (simp add: get_ports_def)
  have c2: "digits t \<and> length t \<le> 5 \<longrightarrow> port_token t = (1024 \<le> dec t \<and> dec t \<le> 65535)"
    using port_token_digits [of t] by simp
  have c3: "t = [] \<or> length t > 5 \<or> char0 t = CHR ''-'' \<or> stray t \<longrightarrow> \<not> port_token t"
    using port_token_malformed [of t] by blast
  have c4: "length p = 3 \<and> digits a \<and> digits b \<and> digits c \<and>
    port_token a \<and> port_token b \<and> port_token c \<longrightarrow>
      get_ports 3 (a @ '','' @ b @ '','' @ c) p =
        (True, [of_nat (dec a), of_nat (dec b), of_nat (dec c)]) \<and>
      fst (get_ports 3 (a @ '','' @ b) p) = (dec b + 1 \<le> 65535) \<and>
      (dec b + 1 \<le> 65535 \<longrightarrow>
         get_ports 3 (a @ '','' @ b) p =
           (True, [of_nat (dec a), of_nat (dec b), of_nat (dec b + 1)])) \<and>
      fst (get_ports 3 a p) = (dec a + 2 \<le> 65535) \<and>
      (dec a + 2 \<le> 65535 \<longrightarrow>
         get_ports 3 a p = (True, [of_nat (dec a), of_nat (dec a + 1), of_nat (dec a + 2)]))"
  proof
    assume h: "length p = 3 \<and> digits a \<and> digits b \<and> digits c \<and>
      port_token a \<and> port_token b \<and> port_token c"
    then have la: "length a \<le> 5" and lb: "length b \<le> 5" and lc: "length c \<le> 5"
      by (simp_all add: port_token_def)
    have va: "fst (strtoul a) = dec a" and vb: "fst (strtoul b) = dec b"
      and vc: "fst (strtoul c) = dec c"
      using h la lb lc by (simp_all add: strtoul_digits)
    show "get_ports 3 (a @ '','' @ b @ '','' @ c) p =
        (True, [of_nat (dec a), of_nat (dec b), of_nat (dec c)]) \<and>
      fst (get_ports 3 (a @ '','' @ b) p) = (dec b + 1 \<le> 65535) \<and>
      (dec b + 1 \<le> 65535 \<longrightarrow>
         get_ports 3 (a @ '','' @ b) p =
           (True, [of_nat (dec a), of_nat (dec b), of_nat (dec b + 1)])) \<and>
      fst (get_ports 3 a p) = (dec a + 2 \<le> 65535) \<and>
      (dec a + 2 \<le> 65535 \<longrightarrow>
         get_ports 3 a p = (True, [of_nat (dec a), of_nat (dec a + 1), of_nat (dec a + 2)]))"
      using h get_ports_three [of p a b c] get_ports_two [of p a b] get_ports_one [of p a]
      by (simp add: va vb vc HIGHEST_PORT_def)
  qed
  have c5: "get_ports 3 ''7000,7001,7002'' [0, 0, 0] = (True, [7000, 7001, 7002]) \<and>
   get_ports 3 ''7000'' [0, 0, 0] = (True, [7000, 7001, 7002]) \<and>
   get_ports 3 ''7000,7001'' [0, 0, 0] = (True, [7000, 7001, 7002]) \<and>
   \<not> fst (get_ports 3 ''65534'' [0, 0, 0])"
    by (simp add: parse_simps)
  have c6: "\<not> fst (get_ports 3 [] p)"
    by (simp add: get_ports_def get_ports_loop.simps find_first_of_def)
  have c7: "rest = [] \<or> char0 (hd rest) = CHR ''-'' \<longrightarrow>
      parse_option v ''-p'' rest =
        Inr (v\<lparr>tcp := [7100, 7000, 7001], udp := [7011, 6001, 6000]\<rparr>, 0)"
    using bare_p_legacy [of rest v] by blast
  from c1 c2 c3 c4 c5 c6 c7 show ?thesis
    by blast
qed

theorem C3_get_ports_tokens_witness:
  "length [0, 0, 0 :: u16] = 3 \<and> digits ''7000'' \<and> digits ''7001'' \<and> digits ''7002'' \<and>
   port_token ''7000'' \<and> port_token ''7001'' \<and> port_token ''7002'' \<and>
   dec ''7000'' = 7000 \<and> dec ''7001'' = 7001 \<and> dec ''7002'' = 7002 \<and>
   get_ports 3 (''7000'' @ '','' @ ''7001'' @ '','' @ ''7002'') [0, 0, 0] =
     (True, [7000, 7001, 7002]) \<and>
   get_ports 3 (''7000'' @ '','' @ ''7001'') [0, 0, 0] = (True, [7000, 7001, 7002]) \<and>
   get_ports 3 ''7000'' [0, 0, 0] = (True, [7000, 7001, 7002]) \<and>
   stray ''70a0'' \<and> \<not> port_token ''70a0'' \<and>
   parse_option main_init ''-p'' [] =
     Inr (main_init\<lparr>tcp := [7100, 7000, 7001], udp := [7011, 6001, 6000]\<rparr>, 0)"
proof -
  have d: "digits ''7000''" "digits ''7001''" "digits ''7002''"
    by (simp_all add: digits_def isdigit_def)
  have v: "dec ''7000'' = 7000" "dec ''7001'' = 7001" "dec ''7002'' = 7002"
    by (simp_all add: dec_def digit_val_def)
  have t: "port_token ''7000''" "port_token ''7001''" "port_token ''7002''"
    by (simp_all add: port_token_def c_simps)
  have s: "stray ''70a0''"
    by (simp add: stray_def isdigit_def isspace_def)
  have l: "length [0, 0, 0 :: u16] = 3"
    by simp
  from C3_get_ports_tokens
    [of "[0, 0, 0]" "''7000''" "''70a0''" "''7000''" "''7001''" "''7002''" "[]" main_init]
    d v t s l
  show ?thesis
    by simp
qed

section \<open>Display geometry\<close>

lemma get_display_settings_flat:
  "fst (get_display_settings s c) =
     (CHR ''x'' \<in> set s \<and> segment_ok 4 (seg_width s) \<and>
      (if CHR ''@'' \<in> set (seg_rest s)
       then segment_ok 3 (seg_refresh s) \<and>
            (of_nat (fst (strtoul (seg_refresh s))) :: u16) \<le> 255 \<and>
            segment_ok 4 (seg_height s)
       else segment_ok 4 (seg_rest s)))"
  by (cases c)
     (auto simp add: get_display_settings_def find_first_of_def seg_width_def seg_rest_def
        seg_height_def seg_refresh_def segment_ok_def Let_def split_def
        takeWhile_eq_take [symmetric] not_le)


lemma u16_of_small: "k < 65536 \<Longrightarrow> unat (of_nat k :: u16) = k"
  by (simp only: unat_of_nat) simp

lemma malformed_not_ok:
  assumes m: "malformed n t" and n: "n \<le> 10"
  shows "\<not> segment_ok n t"
proof
  assume ok: "segment_ok n t"
  then have l: "t \<noteq> []" "length t \<le> n" "char0 t \<noteq> CHR ''-''" "snd (strtoul t) = []"
      and v: "(of_nat (fst (strtoul t)) :: u16) \<noteq> 0"
    by (auto simp add: segment_ok_def)
  from m l strtoul_stray [of t] have d: "digits t" "dec t = 0"
    by (auto simp add: malformed_def)
  from d(1) l(2) n have "strtoul t = (dec t, [])"
    by (intro strtoul_digits) simp_all
  with d(2) v show False
    by simp
qed

lemma digits_segment_ok:
  assumes d: "digits t" and l: "length t \<le> 4" and z: "dec t \<noteq> 0"
  shows "strtoul t = (dec t, [])" and "dec t < 65536" and "segment_ok 4 t"
    and "unat (of_nat (dec t) :: u16) = dec t" and "length t \<le> n \<Longrightarrow> segment_ok n t"
proof -
  show s: "strtoul t = (dec t, [])"
    using d l by (intro strtoul_digits) simp_all
  have "dec t < 10 ^ length t"
    using d by (intro dec_bound) (simp add: digits_def)
  also have "(10::nat) ^ length t \<le> 10 ^ 4"
    using l by (intro power_increasing) simp_all
  finally show b: "dec t < 65536"
    by simp
  then show u: "unat (of_nat (dec t) :: u16) = dec t"
    by (rule u16_of_small)
  from d obtain c cs where "t = c # cs" "isdigit c"
    by (cases t) (auto simp add: digits_def)
  then have c0: "char0 t \<noteq> CHR ''-''" "t \<noteq> []"
    using isdigit_plain [of c] by (simp_all add: char0_def)
  have nz: "(of_nat (dec t) :: u16) \<noteq> 0"
    using u z by (metis unat_0)
  show "segment_ok 4 t"
    using c0 l nz by (simp add: segment_ok_def s)
  show "segment_ok n t" if "length t \<le> n"
    using c0 that nz by (simp add: segment_ok_def s)
qed

lemma digits_no_mark: "digits t \<Longrightarrow> CHR ''x'' \<notin> set t \<and> CHR ''@'' \<notin> set t"
proof -
  assume "digits t"
  then have "\<forall>c \<in> set t. isdigit c"
    by (simp add: digits_def list_all_iff)
  moreover have "\<not> isdigit CHR ''x''" "\<not> isdigit CHR ''@''"
    by (simp_all add: isdigit_def)
  ultimately show ?thesis
    by blast
qed

lemma takeWhile_upto_mark: "c \<notin> set a \<Longrightarrow> takeWhile (\<lambda>d. d \<noteq> c) (a @ c # r) = a"
  by (induction a) auto

lemma find_first_of_append: "c \<notin> set a \<Longrightarrow> find_first_of c (a @ c # r) = Some (length a)"
  by (simp add: find_first_of_def takeWhile_upto_mark)

lemma find_first_of_none: "c \<notin> set a \<Longrightarrow> find_first_of c a = None"
  by (simp add: find_first_of_def)

lemma get_display_settings_wh:
  assumes w: "digits w" "length w \<le> 4" "dec w \<noteq> 0"
      and h: "digits h" "length h \<le> 4" "dec h \<noteq> 0"
  shows "get_display_settings (w @ CHR ''x'' # h) (w0, h0, r0) =
           (True, of_nat (dec w), of_nat (dec h), r0)"
proof -
  have nw: "CHR ''x'' \<notin> set w" and nh: "CHR ''@'' \<notin> set h"
    using digits_no_mark [OF w(1)] digits_no_mark [OF h(1)] by simp_all
  have ow: "segment_ok 4 w" and oh: "segment_ok 4 h"
    by (rule digits_segment_ok(3) [OF w], rule digits_segment_ok(3) [OF h])
  show ?thesis
    using ow oh
    by (simp add: get_display_settings_def find_first_of_append [OF nw]
          find_first_of_none [OF nh] digits_segment_ok(1) [OF w] digits_segment_ok(1) [OF h]
          segment_ok_def Let_def)
qed

lemma get_display_settings_whr:
  assumes w: "digits w" "length w \<le> 4" "dec w \<noteq> 0"
      and h: "digits h" "length h \<le> 4" "dec h \<noteq> 0"
      and r: "digits r" "length r \<le> 3" "1 \<le> dec r" "dec r \<le> 255"
  shows "get_display_settings (w @ CHR ''x'' # h @ CHR ''@'' # r) (w0, h0, r0) =
           (True, of_nat (dec w), of_nat (dec h), of_nat (dec r))"
proof -
  have nw: "CHR ''x'' \<notin> set w" and nh: "CHR ''@'' \<notin> set h"
    using digits_no_mark [OF w(1)] digits_no_mark [OF h(1)] by simp_all
  have r': "length r \<le> 4" "dec r \<noteq> 0"
    using r by simp_all
  have ow: "segment_ok 4 w" and oh: "segment_ok 4 h" and or: "segment_ok 3 r"
    using digits_segment_ok(3) [OF w] digits_segment_ok(3) [OF h]
      digits_segment_ok(5) [OF r(1) r', of 3] r(2) by simp_all
  have ur: "unat (of_nat (dec r) :: u16) = dec r"
    by (rule digits_segment_ok(4) [OF r(1) r'])
  have lr: "\<not> (255 :: u16) < of_nat (dec r)"
    using r(4) ur by (simp add: word_less_nat_alt)
  show ?thesis
    using ow oh or lr
    by (simp add: get_display_settings_def find_first_of_append [OF nw]
          find_first_of_append [OF nh] digits_segment_ok(1) [OF w] digits_segment_ok(1) [OF h]
          digits_segment_ok(1) [OF r(1) r'] segment_ok_def Let_def)
qed

lemma get_display_settings_rejects:
  assumes "CHR ''x'' \<notin> set s \<or> malformed 4 (seg_width s) \<or> malformed 4 (seg_height s) \<or>
      (CHR ''@'' \<in> set (seg_rest s) \<and>
        (malformed 3 (seg_refresh s) \<or> (digits (seg_refresh s) \<and> dec (seg_refresh s) > 255)))"
  shows "\<not> fst (get_display_settings s c)"
proof
  assume acc: "fst (get_display_settings s c)"
  then have x: "CHR ''x'' \<in> set s" and w: "segment_ok 4 (seg_width s)"
    by (simp_all add: get_display_settings_flat)
  have hw: "\<not> malformed 4 (seg_width s)"
    using w malformed_not_ok [of 4 "seg_width s"] by auto
  show False
  proof (cases "CHR ''@'' \<in> set (seg_rest s)")
    case True
    with acc have r: "segment_ok 3 (seg_refresh s)"
        and b: "(of_nat (fst (strtoul (seg_refresh s))) :: u16) \<le> 255"
        and h: "segment_ok 4 (seg_height s)"
      by (simp_all add: get_display_settings_flat)
    have "\<not> malformed 3 (seg_refresh s)" "\<not> malformed 4 (seg_height s)"
      using r h malformed_not_ok [of 3 "seg_refresh s"] malformed_not_ok [of 4 "seg_height s"]
      by auto
    with assms x hw True have d: "digits (seg_refresh s)" "dec (seg_refresh s) > 255"
      by auto
    from r have l: "length (seg_refresh s) \<le> 4"
      by (simp add: segment_ok_def)
    have nz: "dec (seg_refresh s) \<noteq> 0"
      using d(2) by simp
    have "unat (of_nat (dec (seg_refresh s)) :: u16) = dec (seg_refresh s)"
      by (rule digits_segment_ok(4) [OF d(1) l nz])
    moreover have "fst (strtoul (seg_refresh s)) = dec (seg_refresh s)"
      using digits_segment_ok(1) [OF d(1) l nz] by simp
    ultimately show False
      using b d(2) by (simp add: word_le_nat_alt)
  next
    case False
    with acc have h: "segment_ok 4 (seg_rest s)"
      by (simp add: get_display_settings_flat)
    have "seg_height s = seg_rest s"
      using False by (auto simp add: seg_height_def takeWhile_eq_all_conv)
    then have "\<not> malformed 4 (seg_height s)"
      using h malformed_not_ok [of 4 "seg_rest s"] by auto
    with assms x hw False show False
      by auto
  qed
qed


text \<open>
  C2 as stated fails: segments with a leading \<open>+\<close> or a leading blank are accepted, since
  \<open>get_display_settings\<close> rejects only a first character \<open>-\<close> and \<open>strtoul\<close> reads both.
\<close>

theorem C2_get_display_settings_accepts_sign_and_blank:
  "get_display_settings ''+1x1'' (0, 0, 0) = (True, 1, 1, 0) \<and>
   get_display_settings '' 12x+7@ 9'' (0, 0, 0) = (True, 12, 7, 9)"
  by (simp add: parse_simps)

lemma strtoul_unfold:
  "strtoul t =
     (let u = dropWhile isspace t;
          d = (if char0 u = CHR ''-'' \<or> char0 u = CHR ''+'' then tl u else u)
      in if isdigit (char0 d)
         then (if fst (acc_digits 0 d) > ULONG_MAX then ULONG_MAX
               else if char0 u = CHR ''-''
                 then (ULONG_MAX + 1 - fst (acc_digits 0 d)) mod (ULONG_MAX + 1)
                 else fst (acc_digits 0 d), dropWhile isdigit d)
         else (0, t))"
  by (simp add: strtoul_def Let_def split_def acc_digits_snd)

lemma strtoul_number:
  assumes "d = (if char0 (dropWhile isspace t) = CHR ''-'' \<or>
      char0 (dropWhile isspace t) = CHR ''+'' then tl (dropWhile isspace t) else dropWhile isspace t)"
  shows "strtoul t =
     (if isdigit (char0 d)
      then (if fst (acc_digits 0 d) > ULONG_MAX then ULONG_MAX
            else if char0 (dropWhile isspace t) = CHR ''-''
              then (ULONG_MAX + 1 - fst (acc_digits 0 d)) mod (ULONG_MAX + 1)
              else fst (acc_digits 0 d), dropWhile isdigit d)
      else (0, t))"
  unfolding assms strtoul_unfold Let_def ..

lemma strtoul_end_digits:
  assumes "t \<noteq> []" "snd (strtoul t) = []"
  shows "digits (if char0 (dropWhile isspace t) = CHR ''-'' \<or> char0 (dropWhile isspace t) = CHR ''+''
                 then tl (dropWhile isspace t) else dropWhile isspace t)"
proof -
  define d where "d = (if char0 (dropWhile isspace t) = CHR ''-'' \<or>
      char0 (dropWhile isspace t) = CHR ''+'' then tl (dropWhile isspace t) else dropWhile isspace t)"
  have f: "isdigit (char0 d) \<and> dropWhile isdigit d = []"
    using assms by (cases "isdigit (char0 d)") (simp_all add: strtoul_number [OF d_def])
  then have "d \<noteq> []"
    by (auto simp add: char0_def isdigit_def)
  moreover have "list_all isdigit d"
    using f by (simp add: dropWhile_eq_Nil_conv list_all_iff)
  ultimately show ?thesis
    unfolding d_def [symmetric] by (simp add: digits_def)
qed

lemma digits_acc: "digits d \<Longrightarrow> acc_digits 0 d = (dec d, [])"
  by (simp add: digits_def acc_digits_all dec_def)

lemma digits_char0: "digits d \<Longrightarrow> isdigit (char0 d)"
  by (cases d) (simp_all add: digits_def char0_def)

lemma digits_dec_bound: "digits d \<Longrightarrow> length d \<le> n \<Longrightarrow> dec d < 10 ^ n"
proof -
  assume d: "digits d" and l: "length d \<le> n"
  have "dec d < 10 ^ length d"
    using d by (intro dec_bound) (simp add: digits_def)
  also have "(10::nat) ^ length d \<le> 10 ^ n"
    using l by (intro power_increasing) simp_all
  finally show ?thesis .
qed

lemma number_part_length: "length (number_part t) \<le> length t"
proof -
  have "length (dropWhile isspace t) \<le> length t"
    by (rule length_dropWhile_le)
  then show ?thesis
    by (auto simp add: number_part_def Let_def)
qed

lemma plain_strtoul:
  assumes p: "plain n t" and n: "n \<le> 10"
  shows "strtoul t = (dec (number_part t), [])" and "char0 t \<noteq> CHR ''-''" and "t \<noteq> []"
    and "char0 (dropWhile isspace t) \<noteq> CHR ''-''"
proof -
  define u where "u = dropWhile isspace t"
  from p have d: "digits (number_part t)" and l: "length t \<le> n"
    by (simp_all add: plain_def)
  show nm: "char0 (dropWhile isspace t) \<noteq> CHR ''-''"
  proof
    assume m: "char0 (dropWhile isspace t) = CHR ''-''"
    then have "number_part t = dropWhile isspace t"
      by (simp add: number_part_def)
    with digits_char0 [OF d] m show False
      by (simp add: isdigit_def)
  qed
  have np: "number_part t = (if char0 (dropWhile isspace t) = CHR ''-'' \<or>
      char0 (dropWhile isspace t) = CHR ''+'' then tl (dropWhile isspace t) else dropWhile isspace t)"
    using nm by (simp add: number_part_def)
  have "dec (number_part t) < 10 ^ 10"
    using number_part_length [of t] l n by (intro digits_dec_bound [OF d]) simp
  then have b: "\<not> dec (number_part t) > ULONG_MAX"
    by (simp add: ULONG_MAX_def)
  have dw: "dropWhile isdigit (number_part t) = []"
    using d by (simp add: digits_def dropWhile_eq_Nil_conv list_all_iff)
  show "strtoul t = (dec (number_part t), [])"
    using nm b digits_char0 [OF d] dw
    by (simp add: strtoul_number [OF np] digits_acc [OF d])
  show "t \<noteq> []"
    using d by (auto simp add: number_part_def digits_def char0_def)
  show "char0 t \<noteq> CHR ''-''"
  proof
    assume m: "char0 t = CHR ''-''"
    then have "dropWhile isspace t = t"
      by (cases t) (auto simp add: char0_def isspace_def)
    with nm m show False
      by simp
  qed
qed

lemma plain_segment_ok:
  assumes p: "plain n t" and n: "n \<le> 4"
  shows "segment_ok n t" and "unat (of_nat (dec (number_part t)) :: u16) = dec (number_part t)"
proof -
  from p have d: "digits (number_part t)" and l: "length t \<le> n" and z: "dec (number_part t) \<noteq> 0"
    by (simp_all add: plain_def)
  have n10: "n \<le> 10"
    using n by simp
  have "dec (number_part t) < 10 ^ 4"
    using number_part_length [of t] l n by (intro digits_dec_bound [OF d]) simp
  then show u: "unat (of_nat (dec (number_part t)) :: u16) = dec (number_part t)"
    by (intro u16_of_small) simp
  have nz: "(of_nat (dec (number_part t)) :: u16) \<noteq> 0"
    using u z by (metis unat_0)
  show "segment_ok n t"
    using plain_strtoul [OF p n10] l nz by (simp add: segment_ok_def)
qed

lemma segment_ok_forms:
  assumes ok: "segment_ok n t" and n: "n \<le> 4"
  shows "plain n t \<or> blank_minus t"
proof (cases "char0 (dropWhile isspace t) = CHR ''-''")
  case True
  from ok have "char0 t \<noteq> CHR ''-''"
    by (simp add: segment_ok_def)
  with True have "dropWhile isspace t \<noteq> t"
    by auto
  then have "isspace (char0 t)"
    by (cases t) (auto simp add: char0_def split: if_splits)
  with True show ?thesis
    by (simp add: blank_minus_def)
next
  case False
  from ok have t: "t \<noteq> []" and l: "length t \<le> n" and e: "snd (strtoul t) = []"
      and v: "(of_nat (fst (strtoul t)) :: u16) \<noteq> 0"
    by (auto simp add: segment_ok_def)
  have np: "number_part t = (if char0 (dropWhile isspace t) = CHR ''-'' \<or>
      char0 (dropWhile isspace t) = CHR ''+'' then tl (dropWhile isspace t) else dropWhile isspace t)"
    using False by (simp add: number_part_def)
  have d: "digits (number_part t)"
    using strtoul_end_digits [OF t e] by (simp only: np)
  have "dec (number_part t) < 10 ^ 10"
    using number_part_length [of t] l n by (intro digits_dec_bound [OF d]) simp
  then have b: "\<not> dec (number_part t) > ULONG_MAX"
    by (simp add: ULONG_MAX_def)
  have "fst (strtoul t) = dec (number_part t)"
    using False b digits_char0 [OF d]
    by (simp add: strtoul_number [OF np] digits_acc [OF d])
  with v have "dec (number_part t) \<noteq> 0"
    by (cases "dec (number_part t) = 0") simp_all
  with d l show ?thesis
    by (simp add: plain_def)
qed


lemma refresh_plain:
  assumes ok: "segment_ok 3 t" and le: "(of_nat (fst (strtoul t)) :: u16) \<le> 255"
  shows "plain 3 t \<and> dec (number_part t) \<le> 255"
proof (cases "char0 (dropWhile isspace t) = CHR ''-''")
  case False
  then have "\<not> blank_minus t"
    by (simp add: blank_minus_def)
  with segment_ok_forms [OF ok] have p: "plain 3 t"
    by simp
  have "unat (of_nat (dec (number_part t)) :: u16) = dec (number_part t)"
    by (rule plain_segment_ok(2) [OF p]) simp
  moreover have "fst (strtoul t) = dec (number_part t)"
    using plain_strtoul(1) [OF p] by simp
  ultimately have "dec (number_part t) \<le> 255"
    using le by (simp add: word_le_nat_alt)
  with p show ?thesis
    by simp
next
  case True
  define u where "u = dropWhile isspace t"
  define d where "d = tl u"
  from ok have t: "t \<noteq> []" and l: "length t \<le> 3" and c: "char0 t \<noteq> CHR ''-''"
      and e: "snd (strtoul t) = []" and v: "(of_nat (fst (strtoul t)) :: u16) \<noteq> 0"
    by (auto simp add: segment_ok_def)
  have dd: "d = (if char0 (dropWhile isspace t) = CHR ''-'' \<or>
      char0 (dropWhile isspace t) = CHR ''+'' then tl (dropWhile isspace t) else dropWhile isspace t)"
    using True by (simp add: d_def u_def)
  have dg: "digits d"
    using strtoul_end_digits [OF t e] by (simp only: dd)
  have un: "u \<noteq> []"
    using True by (cases "dropWhile isspace t") (simp_all add: u_def char0_def)
  have "u \<noteq> t"
    using True c by (auto simp add: u_def)
  then have "takeWhile isspace t \<noteq> []"
    unfolding u_def by (metis append_Nil takeWhile_dropWhile_id)
  moreover have "length t = length (takeWhile isspace t) + length u"
    unfolding u_def by (metis length_append takeWhile_dropWhile_id)
  moreover have "length u = Suc (length d)"
    using un by (simp add: d_def)
  moreover have "d \<noteq> []"
    using dg by (simp add: digits_def)
  ultimately have "length d = 1"
    using l by (cases "takeWhile isspace t"; cases d) simp_all
  then obtain x where dx: "d = [x]"
    by (cases d) simp_all
  have ix: "isdigit x"
    using dg by (simp add: dx digits_def)
  define k where "k = digit_val x"
  have k9: "k \<le> 9"
    using ix unfolding k_def digit_val_def isdigit_def by arith
  have val: "fst (strtoul t) = (ULONG_MAX + 1 - k) mod (ULONG_MAX + 1)"
    using ix True k9 [unfolded k_def]
    by (simp add: strtoul_number [OF dd] dx char0_def k_def ULONG_MAX_def)
  have m: "unat (of_nat (fst (strtoul t)) :: u16) = fst (strtoul t) mod 65536"
    by (simp only: unat_of_nat) simp
  have le': "fst (strtoul t) mod 65536 \<le> 255"
    using le m by (simp add: word_le_nat_alt)
  have nz: "fst (strtoul t) mod 65536 \<noteq> 0"
    using v m by (metis unat_eq_0)
  from k9 have "k = 0 \<or> k = 1 \<or> k = 2 \<or> k = 3 \<or> k = 4 \<or> k = 5 \<or> k = 6 \<or> k = 7 \<or> k = 8 \<or> k = 9"
    by arith
  then have False
    using le' nz by (elim disjE) (simp_all add: val ULONG_MAX_def)
  then show ?thesis ..
qed


lemma get_display_settings_values:
  assumes acc: "fst (get_display_settings s (w0, h0, r0))"
  shows "get_display_settings s (w0, h0, r0) =
     (True, of_nat (fst (strtoul (seg_width s))), of_nat (fst (strtoul (seg_height s))),
      if CHR ''@'' \<in> set (seg_rest s) then of_nat (fst (strtoul (seg_refresh s))) else r0)"
proof -
  have e1: "take (length (takeWhile (\<lambda>d. d \<noteq> CHR ''x'') s)) s = seg_width s"
    by (simp add: seg_width_def takeWhile_eq_take [symmetric])
  have e2: "drop (Suc (length (takeWhile (\<lambda>d. d \<noteq> CHR ''x'') s))) s = seg_rest s"
    by (simp add: seg_rest_def seg_width_def)
  have e3: "take (length (takeWhile (\<lambda>d. d \<noteq> CHR ''@'') (seg_rest s))) (seg_rest s) = seg_height s"
    by (simp add: seg_height_def takeWhile_eq_take [symmetric])
  have e4: "drop (Suc (length (takeWhile (\<lambda>d. d \<noteq> CHR ''@'') (seg_rest s)))) (seg_rest s) =
      seg_refresh s"
    by (simp add: seg_refresh_def seg_height_def)
  from acc have x: "CHR ''x'' \<in> set s" and w: "segment_ok 4 (seg_width s)"
    by (simp_all add: get_display_settings_flat)
  show ?thesis
  proof (cases "CHR ''@'' \<in> set (seg_rest s)")
    case True
    with acc have r: "segment_ok 3 (seg_refresh s)"
        and b: "\<not> (255 :: u16) < of_nat (fst (strtoul (seg_refresh s)))"
        and h: "segment_ok 4 (seg_height s)"
      by (simp_all add: get_display_settings_flat not_less)
    show ?thesis
      using x True w r b h
      by (simp add: get_display_settings_def find_first_of_def Let_def split_def e1 e2 e3 e4
            segment_ok_def)
  next
    case False
    then have hr: "seg_height s = seg_rest s"
      by (auto simp add: seg_height_def takeWhile_eq_all_conv)
    from acc False have h: "segment_ok 4 (seg_rest s)"
      by (simp add: get_display_settings_flat)
    show ?thesis
      using x False w h
      by (simp add: get_display_settings_def find_first_of_def Let_def split_def e1 e2 hr
            segment_ok_def)
  qed
qed


lemma seg_height_rest: "CHR ''@'' \<notin> set (seg_rest s) \<Longrightarrow> seg_height s = seg_rest s"
  by (auto simp add: seg_height_def takeWhile_eq_all_conv)

lemma digits_number_part:
  assumes d: "digits t"
  shows "number_part t = t" and "\<not> blank_minus t"
proof -
  from d obtain c cs where t: "t = c # cs" and c: "isdigit c"
    by (cases t) (auto simp add: digits_def)
  from isdigit_plain [OF c] show "number_part t = t"
    by (simp add: number_part_def t char0_def)
  from isdigit_plain [OF c] show "\<not> blank_minus t"
    by (simp add: blank_minus_def t char0_def)
qed

lemma get_display_settings_plain:
  assumes x: "CHR ''x'' \<in> set s" and w: "plain 4 (seg_width s)" and h: "plain 4 (seg_height s)"
      and r: "CHR ''@'' \<in> set (seg_rest s) \<Longrightarrow>
                plain 3 (seg_refresh s) \<and> dec (number_part (seg_refresh s)) \<le> 255"
  shows "get_display_settings s (w0, h0, r0) =
       (True, of_nat (dec (number_part (seg_width s))), of_nat (dec (number_part (seg_height s))),
        if CHR ''@'' \<in> set (seg_rest s) then of_nat (dec (number_part (seg_refresh s))) else r0)"
proof -
  have ow: "segment_ok 4 (seg_width s)" and oh: "segment_ok 4 (seg_height s)"
    using plain_segment_ok(1) [OF w] plain_segment_ok(1) [OF h] by simp_all
  have vw: "fst (strtoul (seg_width s)) = dec (number_part (seg_width s))"
    and vh: "fst (strtoul (seg_height s)) = dec (number_part (seg_height s))"
    using plain_strtoul(1) [OF w] plain_strtoul(1) [OF h] by simp_all
  show ?thesis
  proof (cases "CHR ''@'' \<in> set (seg_rest s)")
    case True
    with r have pr: "plain 3 (seg_refresh s)" and br: "dec (number_part (seg_refresh s)) \<le> 255"
      by simp_all
    have or: "segment_ok 3 (seg_refresh s)"
      using plain_segment_ok(1) [OF pr] by simp
    have vr: "fst (strtoul (seg_refresh s)) = dec (number_part (seg_refresh s))"
      using plain_strtoul(1) [OF pr] by simp
    have "unat (of_nat (dec (number_part (seg_refresh s))) :: u16) = dec (number_part (seg_refresh s))"
      using plain_segment_ok(2) [OF pr] by simp
    then have lr: "(of_nat (dec (number_part (seg_refresh s))) :: u16) \<le> 255"
      using br by (simp add: word_le_nat_alt)
    have "fst (get_display_settings s (w0, h0, r0))"
      using x ow oh or lr True by (simp add: get_display_settings_flat vr)
    from get_display_settings_values [OF this] True show ?thesis
      by (simp add: vw vh vr)
  next
    case False
    have "fst (get_display_settings s (w0, h0, r0))"
      using x ow oh False by (simp add: get_display_settings_flat seg_height_rest)
    from get_display_settings_values [OF this] False show ?thesis
      by (simp add: vw vh)
  qed
qed

lemma get_display_settings_accepted:
  assumes acc: "fst (get_display_settings s c)"
  shows "CHR ''x'' \<in> set s \<and> (plain 4 (seg_width s) \<or> blank_minus (seg_width s)) \<and>
     (plain 4 (seg_height s) \<or> blank_minus (seg_height s)) \<and>
     (CHR ''@'' \<in> set (seg_rest s) \<longrightarrow>
        plain 3 (seg_refresh s) \<and> dec (number_part (seg_refresh s)) \<le> 255)"
proof -
  from acc have x: "CHR ''x'' \<in> set s" and w: "segment_ok 4 (seg_width s)"
    by (simp_all add: get_display_settings_flat)
  have h: "segment_ok 4 (seg_height s)"
    using acc by (cases "CHR ''@'' \<in> set (seg_rest s)")
      (simp_all add: get_display_settings_flat seg_height_rest)
  have r: "plain 3 (seg_refresh s) \<and> dec (number_part (seg_refresh s)) \<le> 255"
    if "CHR ''@'' \<in> set (seg_rest s)"
    using acc that by (intro refresh_plain) (simp_all add: get_display_settings_flat)
  from x segment_ok_forms [OF w] segment_ok_forms [OF h] r show ?thesis
    by simp
qed

text \<open>
  C2, amended. The segments of a display text are the width before the first \<open>x\<close>, the
  height after it up to the first \<open>@\<close>, and the refresh rate after that \<open>@\<close> when there
  is one. A segment is plain when it is optional white space, an optional \<open>+\<close> and a
  decimal text of nonzero value, at most 4 characters in all (refresh rate: 3).
  When the text has an \<open>x\<close>, width and height are plain, and the refresh rate, if
  present, is plain with value at most 255, \<open>get_display_settings\<close> returns true and
  stores exactly these values (the refresh cell keeps its value when there is no \<open>@\<close>).
  When it returns true, the text has an \<open>x\<close>, width and height are each plain or have
  white space followed by \<open>-\<close>, and the refresh rate, if present, is plain with value at
  most 255: every other text is rejected. A text of digits is its own number part. So
  for \<open>w\<close>, \<open>h\<close> of 1 to 4 digits and \<open>r\<close> of 1 to 3 digits with nonzero values and
  \<open>r\<close> at most 255 the three values are stored exactly, and \<open>0x1080\<close>, \<open>1920x0\<close>,
  \<open>1920x1080@0\<close>, \<open>1920x1080@256\<close>, \<open>abcx1080\<close>, a text without \<open>x\<close>, and texts with a
  blank or sign inside or after the digits are rejected.
\<close>

theorem C2_get_display_settings_forms:
  "(CHR ''x'' \<in> set s \<and> plain 4 (seg_width s) \<and> plain 4 (seg_height s) \<and>
    (CHR ''@'' \<in> set (seg_rest s) \<longrightarrow>
       plain 3 (seg_refresh s) \<and> dec (number_part (seg_refresh s)) \<le> 255) \<longrightarrow>
      get_display_settings s (w0, h0, r0) =
        (True, of_nat (dec (number_part (seg_width s))),
         of_nat (dec (number_part (seg_height s))),
         if CHR ''@'' \<in> set (seg_rest s) then of_nat (dec (number_part (seg_refresh s)))
         else r0) \<and>
      unat (of_nat (dec (number_part (seg_width s))) :: u16) = dec (number_part (seg_width s)) \<and>
      unat (of_nat (dec (number_part (seg_height s))) :: u16) = dec (number_part (seg_height s)) \<and>
      (CHR ''@'' \<in> set (seg_rest s) \<longrightarrow>
         unat (of_nat (dec (number_part (seg_refresh s))) :: u16) =
           dec (number_part (seg_refresh s)))) \<and>
   (fst (get_display_settings s (w0, h0, r0)) \<longrightarrow>
      CHR ''x'' \<in> set s \<and> (plain 4 (seg_width s) \<or> blank_minus (seg_width s)) \<and>
      (plain 4 (seg_height s) \<or> blank_minus (seg_height s)) \<and>
      (CHR ''@'' \<in> set (seg_rest s) \<longrightarrow>
         plain 3 (seg_refresh s) \<and> dec (number_part (seg_refresh s)) \<le> 255)) \<and>
   (digits t \<longrightarrow>
      number_part t = t \<and> plain n t = (length t \<le> n \<and> dec t \<noteq> 0) \<and> \<not> blank_minus t) \<and>
   (digits w \<and> length w \<le> 4 \<and> dec w \<noteq> 0 \<and> digits h \<and> length h \<le> 4 \<and> dec h \<noteq> 0 \<longrightarrow>
      get_display_settings (w @ ''x'' @ h) (w0, h0, r0) =
        (True, of_nat (dec w), of_nat (dec h), r0) \<and>
      unat (of_nat (dec w) :: u16) = dec w \<and> unat (of_nat (dec h) :: u16) = dec h \<and>
      (digits r \<and> length r \<le> 3 \<and> 1 \<le> dec r \<and> dec r \<le> 255 \<longrightarrow>
         get_display_settings (w @ ''x'' @ h @ ''@'' @ r) (w0, h0, r0) =
           (True, of_nat (dec w), of_nat (dec h), of_nat (dec r)) \<and>
         unat (of_nat (dec r) :: u16) = dec r)) \<and>
   (CHR ''x'' \<notin> set s \<or> malformed 4 (seg_width s) \<or> malformed 4 (seg_height s) \<or>
      (CHR ''@'' \<in> set (seg_rest s) \<and>
        (malformed 3 (seg_refresh s) \<or> (digits (seg_refresh s) \<and> dec (seg_refresh s) > 255))) \<longrightarrow>
      \<not> fst (get_display_settings s (w0, h0, r0))) \<and>
   \<not> fst (get_display_settings ''0x1080'' (w0, h0, r0)) \<and>
   \<not> fst (get_display_settings ''1920x0'' (w0, h0, r0)) \<and>
   \<not> fst (get_display_settings ''1920x1080@0'' (w0, h0, r0)) \<and>
   \<not> fst (get_display_settings ''1920x1080@256'' (w0, h0, r0)) \<and>
   \<not> fst (get_display_settings ''abcx1080'' (w0, h0, r0)) \<and>
   \<not> fst (get_display_settings ''1920:1080'' (w0, h0, r0)) \<and>
   \<not> fst (get_display_settings ''1 2x3'' (w0, h0, r0)) \<and>
   \<not> fst (get_display_settings ''12 x3'' (w0, h0, r0)) \<and>
   \<not> fst (get_display_settings ''+0x3'' (w0, h0, r0)) \<and>
   \<not> fst (get_display_settings ''+x3'' (w0, h0, r0)) \<and>
   \<not> fst (get_display_settings ''1x1@ -1'' (w0, h0, r0)) \<and>
   \<not> fst (get_display_settings ''+1234x1'' (w0, h0, r0))"
proof -
  have a: "(CHR ''x'' \<in> set s \<and> plain 4 (seg_width s) \<and> plain 4 (seg_height s) \<and>
    (CHR ''@'' \<in> set (seg_rest s) \<longrightarrow>
       plain 3 (seg_refresh s) \<and> dec (number_part (seg_refresh s)) \<le> 255) \<longrightarrow>
      get_display_settings s (w0, h0, r0) =
        (True, of_nat (dec (number_part (seg_width s))),
         of_nat (dec (number_part (seg_height s))),
         if CHR ''@'' \<in> set (seg_rest s) then of_nat (dec (number_part (seg_refresh s)))
         else r0) \<and>
      unat (of_nat (dec (number_part (seg_width s))) :: u16) = dec (number_part (seg_width s)) \<and>
      unat (of_nat (dec (number_part (seg_height s))) :: u16) = dec (number_part (seg_height s)) \<and>
      (CHR ''@'' \<in> set (seg_rest s) \<longrightarrow>
         unat (of_nat (dec (number_part (seg_refresh s))) :: u16) =
           dec (number_part (seg_refresh s))))"
  proof (intro impI conjI)
    assume p: "CHR ''x'' \<in> set s \<and> plain 4 (seg_width s) \<and> plain 4 (seg_height s) \<and>
      (CHR ''@'' \<in> set (seg_rest s) \<longrightarrow>
         plain 3 (seg_refresh s) \<and> dec (number_part (seg_refresh s)) \<le> 255)"
    then show "get_display_settings s (w0, h0, r0) =
        (True, of_nat (dec (number_part (seg_width s))),
         of_nat (dec (number_part (seg_height s))),
         if CHR ''@'' \<in> set (seg_rest s) then of_nat (dec (number_part (seg_refresh s)))
         else r0)"
      by (intro get_display_settings_plain) simp_all
    from p show "unat (of_nat (dec (number_part (seg_width s))) :: u16) =
        dec (number_part (seg_width s))"
      by (intro plain_segment_ok(2) [of 4]) simp_all
    from p show "unat (of_nat (dec (number_part (seg_height s))) :: u16) =
        dec (number_part (seg_height s))"
      by (intro plain_segment_ok(2) [of 4]) simp_all
    assume "CHR ''@'' \<in> set (seg_rest s)"
    with p show "unat (of_nat (dec (number_part (seg_refresh s))) :: u16) =
        dec (number_part (seg_refresh s))"
      by (intro plain_segment_ok(2) [of 3]) simp_all
  qed
  have b: "(fst (get_display_settings s (w0, h0, r0)) \<longrightarrow>
      CHR ''x'' \<in> set s \<and> (plain 4 (seg_width s) \<or> blank_minus (seg_width s)) \<and>
      (plain 4 (seg_height s) \<or> blank_minus (seg_height s)) \<and>
      (CHR ''@'' \<in> set (seg_rest s) \<longrightarrow>
         plain 3 (seg_refresh s) \<and> dec (number_part (seg_refresh s)) \<le> 255))"
    using get_display_settings_accepted [of s "(w0, h0, r0)"] by blast
  have c: "(digits t \<longrightarrow>
      number_part t = t \<and> plain n t = (length t \<le> n \<and> dec t \<noteq> 0) \<and> \<not> blank_minus t)"
    using digits_number_part [of t] by (simp add: plain_def)
  have d: "(digits w \<and> length w \<le> 4 \<and> dec w \<noteq> 0 \<and> digits h \<and> length h \<le> 4 \<and> dec h \<noteq> 0 \<longrightarrow>
      get_display_settings (w @ ''x'' @ h) (w0, h0, r0) =
        (True, of_nat (dec w), of_nat (dec h), r0) \<and>
      unat (of_nat (dec w) :: u16) = dec w \<and> unat (of_nat (dec h) :: u16) = dec h \<and>
      (digits r \<and> length r \<le> 3 \<and> 1 \<le> dec r \<and> dec r \<le> 255 \<longrightarrow>
         get_display_settings (w @ ''x'' @ h @ ''@'' @ r) (w0, h0, r0) =
           (True, of_nat (dec w), of_nat (dec h), of_nat (dec r)) \<and>
         unat (of_nat (dec r) :: u16) = dec r))"
  proof (intro impI conjI)
    assume wh: "digits w \<and> length w \<le> 4 \<and> dec w \<noteq> 0 \<and> digits h \<and> length h \<le> 4 \<and> dec h \<noteq> 0"
    then show "get_display_settings (w @ ''x'' @ h) (w0, h0, r0) =
        (True, of_nat (dec w), of_nat (dec h), r0)"
      using get_display_settings_wh [of w h w0 h0 r0] by simp
    from wh show "unat (of_nat (dec w) :: u16) = dec w"
      by (intro digits_segment_ok(4)) simp_all
    from wh show "unat (of_nat (dec h) :: u16) = dec h"
      by (intro digits_segment_ok(4)) simp_all
    assume r: "digits r \<and> length r \<le> 3 \<and> 1 \<le> dec r \<and> dec r \<le> 255"
    with wh show "get_display_settings (w @ ''x'' @ h @ ''@'' @ r) (w0, h0, r0) =
           (True, of_nat (dec w), of_nat (dec h), of_nat (dec r))"
      using get_display_settings_whr [of w h r w0 h0 r0] by simp
    from r show "unat (of_nat (dec r) :: u16) = dec r"
      by (intro digits_segment_ok(4)) simp_all
  qed
  have e: "(CHR ''x'' \<notin> set s \<or> malformed 4 (seg_width s) \<or> malformed 4 (seg_height s) \<or>
      (CHR ''@'' \<in> set (seg_rest s) \<and>
        (malformed 3 (seg_refresh s) \<or> (digits (seg_refresh s) \<and> dec (seg_refresh s) > 255))) \<longrightarrow>
      \<not> fst (get_display_settings s (w0, h0, r0)))"
    using get_display_settings_rejects [of s "(w0, h0, r0)"] by blast
  have f: "\<not> fst (get_display_settings ''0x1080'' (w0, h0, r0))"
    "\<not> fst (get_display_settings ''1920x0'' (w0, h0, r0))"
    "\<not> fst (get_display_settings ''1920x1080@0'' (w0, h0, r0))"
    "\<not> fst (get_display_settings ''1920x1080@256'' (w0, h0, r0))"
    "\<not> fst (get_display_settings ''abcx1080'' (w0, h0, r0))"
    "\<not> fst (get_display_settings ''1920:1080'' (w0, h0, r0))"
    "\<not> fst (get_display_settings ''1 2x3'' (w0, h0, r0))"
    "\<not> fst (get_display_settings ''12 x3'' (w0, h0, r0))"
    "\<not> fst (get_display_settings ''+0x3'' (w0, h0, r0))"
    "\<not> fst (get_display_settings ''+x3'' (w0, h0, r0))"
    "\<not> fst (get_display_settings ''1x1@ -1'' (w0, h0, r0))"
    "\<not> fst (get_display_settings ''+1234x1'' (w0, h0, r0))"
    by (simp_all add: parse_simps)
  from a b c d e f show ?thesis
    by blast
qed

theorem C2_get_display_settings_forms_witness:
  "CHR ''x'' \<in> set '' 12x+7@ 9'' \<and> plain 4 (seg_width '' 12x+7@ 9'') \<and>
   plain 4 (seg_height '' 12x+7@ 9'') \<and> CHR ''@'' \<in> set (seg_rest '' 12x+7@ 9'') \<and>
   plain 3 (seg_refresh '' 12x+7@ 9'') \<and>
   get_display_settings '' 12x+7@ 9'' (0, 0, 0) = (True, 12, 7, 9) \<and>
   digits ''1280'' \<and> digits ''720'' \<and> digits ''30'' \<and>
   get_display_settings (''1280'' @ ''x'' @ ''720'') (0, 0, 0) = (True, 1280, 720, 0) \<and>
   get_display_settings (''1280'' @ ''x'' @ ''720'' @ ''@'' @ ''30'') (0, 0, 0) =
     (True, 1280, 720, 30) \<and>
   plain 4 ''720'' \<and> \<not> blank_minus ''720''"
proof -
  have sg: "seg_width '' 12x+7@ 9'' = '' 12''" "seg_rest '' 12x+7@ 9'' = ''+7@ 9''"
    "seg_height '' 12x+7@ 9'' = ''+7''" "seg_refresh '' 12x+7@ 9'' = '' 9''"
    by (simp_all add: seg_width_def seg_rest_def seg_height_def seg_refresh_def)
  have np: "number_part '' 12'' = ''12''" "number_part ''+7'' = ''7''" "number_part '' 9'' = ''9''"
    by (simp_all add: number_part_def isspace_def char0_def)
  have d: "digits ''1280''" "digits ''720''" "digits ''30''" "digits ''12''" "digits ''7''"
    "digits ''9''"
    by (simp_all add: digits_def isdigit_def)
  have v: "dec ''1280'' = 1280" "dec ''720'' = 720" "dec ''30'' = 30" "dec ''12'' = 12"
    "dec ''7'' = 7" "dec ''9'' = 9"
    by (simp_all add: dec_def digit_val_def)
  have p: "plain 4 '' 12''" "plain 4 ''+7''" "plain 3 '' 9''"
    by (simp_all add: plain_def np d v)
  from C2_get_display_settings_forms
    [where s = "'' 12x+7@ 9''" and ?w0.0 = 0 and ?h0.0 = 0 and ?r0.0 = 0 and t = "''720''"
       and n = 4 and w = "''1280''" and h = "''720''" and r = "''30''"] sg np d v p
  show ?thesis
    by simp
qed

text \<open>
  A blank before a minus sign passes the check of the first character: \<open>strtoul\<close> negates
  the value in \<open>unsigned long\<close> and the \<open>unsigned short\<close> keeps its low 16 bits.
\<close>

lemma get_display_settings_blank_minus:
  "get_display_settings '' -5x1'' (0, 0, 0) = (True, 65531, 1, 0)"
  by (simp add: parse_simps)

end
